theory Spec2Isabelle
  imports Main
begin

section \<open>Strings of the plugin\<close>

text \<open>
  A JavaScript string is a sequence of UTF-16 code units; \<open>length\<close>, \<open>slice\<close> and the
  character classes of a regular expression without the \<open>u\<close> flag all work on code units.
  A code unit is modelled by its number, a string by the list of its code units.
  Identifiers, tokens and error messages are opaque to the plugin and stay HOL strings.
\<close>

type_synonym jsstring = "nat list"

definition js :: "string \<Rightarrow> jsstring" where
  "js s = map of_char s"

text \<open>The class \<open>[\x00-\x1F\x7F-\x9F]\<close> of \<open>_normalizeTitle\<close>.\<close>

definition is_control :: "nat \<Rightarrow> bool" where
  "is_control c = (c \<le> 0x1F \<or> (0x7F \<le> c \<and> c \<le> 0x9F))"

text \<open>The class \<open>[<>:"\/\\|?*]\<close>: the code units of \<open>< > : " / \ | ? *\<close>.\<close>

definition illegal_units :: "nat list" where
  "illegal_units = [0x3C, 0x3E, 0x3A, 0x22, 0x2F, 0x5C, 0x7C, 0x3F, 0x2A]"

definition is_illegal :: "nat \<Rightarrow> bool" where
  "is_illegal c = (c \<in> set illegal_units)"

text \<open>
  The class \<open>\s\<close> of ECMAScript, which is also what \<open>String.prototype.trim\<close> strips: tab,
  line feed, vertical tab, form feed, carriage return, space, no-break space, U+1680,
  U+2000 to U+200A, the line and paragraph separators, U+202F, U+205F, U+3000 and U+FEFF.
\<close>

definition is_space :: "nat \<Rightarrow> bool" where
  "is_space c =
     (c \<in> set [0x09, 0x0A, 0x0B, 0x0C, 0x0D, 0x20, 0xA0, 0x1680, 0x2028, 0x2029,
                0x202F, 0x205F, 0x3000, 0xFEFF]
      \<or> (0x2000 \<le> c \<and> c \<le> 0x200A))"

text \<open>\<open>.replace(/[\x00-\x1F\x7F-\x9F]/g, "")\<close>\<close>

definition strip_control :: "jsstring \<Rightarrow> jsstring" where
  "strip_control s = filter (\<lambda>c. \<not> is_control c) s"

text \<open>\<open>.replace(/[<>:"\/\\|?*]/g, "_")\<close>\<close>

definition replace_illegal :: "jsstring \<Rightarrow> jsstring" where
  "replace_illegal s = map (\<lambda>c. if is_illegal c then 0x5F else c) s"

text \<open>\<open>.replace(/\s+/g, " ")\<close>: every maximal run of white space becomes one space.\<close>

function collapse_ws :: "jsstring \<Rightarrow> jsstring" where
  "collapse_ws [] = []"
| "collapse_ws (c # cs) =
     (if is_space c then 0x20 # collapse_ws (dropWhile is_space cs)
      else c # collapse_ws cs)"
  by pat_completeness auto
termination
  by (relation "measure length") (auto simp: less_Suc_eq_le length_dropWhile_le)

text \<open>\<open>.trim()\<close>\<close>

definition trim :: "jsstring \<Rightarrow> jsstring" where
  "trim s = rev (dropWhile is_space (rev (dropWhile is_space s)))"

text \<open>The placeholder title, U+6682 U+65E0 U+6807 U+9898.\<close>

definition placeholder_title :: jsstring where
  "placeholder_title = [0x6682, 0x65E0, 0x6807, 0x9898]"

definition MAX_LENGTH :: nat where
  "MAX_LENGTH = 100"

text \<open>
  The value of the local \<open>sanitized\<close> of \<open>_normalizeTitle\<close> when it is handed to
  \<open>normalizePath\<close>.
\<close>

definition sanitize_title :: "jsstring \<Rightarrow> jsstring" where
  "sanitize_title title =
     (let sanitized = trim (collapse_ws (replace_illegal (strip_control title)));
          sanitized = (if length sanitized > MAX_LENGTH then take MAX_LENGTH sanitized
                       else sanitized);
          sanitized = (if length sanitized = 0 then placeholder_title else sanitized)
      in sanitized)"

text \<open>
  \<open>normalizePath\<close> belongs to the host application, not to the plugin: it is a parameter.
\<close>

definition normalizeTitle :: "(jsstring \<Rightarrow> jsstring) \<Rightarrow> jsstring \<Rightarrow> jsstring" where
  "normalizeTitle np title = np (sanitize_title title)"

text \<open>
  The decimal rendering of a counter in a template literal (\<open>${i}\<close>), for a counter that
  starts at 0 and is incremented by one.
\<close>

fun decimal :: "nat \<Rightarrow> jsstring" where
  "decimal n = (if n < 10 then [0x30 + n] else decimal (n div 10) @ [0x30 + n mod 10])"


declare decimal.simps [simp del]

text \<open>The template literal \<open>`${name} ${i}.md`\<close> of \<open>_getFileName\<close>.\<close>

definition suffixed :: "jsstring \<Rightarrow> nat \<Rightarrow> jsstring" where
  "suffixed name i = name @ js '' '' @ decimal i @ js ''.md''"

text \<open>JavaScript truthiness of a \<open>string | null\<close>: neither \<open>null\<close> nor the empty string.\<close>

definition truthy :: "'a list option \<Rightarrow> bool" where
  "truthy s = (case s of None \<Rightarrow> False | Some t \<Rightarrow> t \<noteq> [])"

section \<open>Settings, remote replies and the world the plugin runs in\<close>

record NewledgeSettings =
  token :: "string option"
  user :: "(string \<times> string) option"
  sessionId :: "string option"
  syncing :: bool
  rootDir :: jsstring
  richTextDir :: jsstring
  linkDir :: jsstring
  syncInterval :: nat
  lastSyncTime :: "int option"
  enable :: bool

text \<open>
  What is thrown is taken to be an \<open>Error\<close> object, as the rejections of the host and of
  the service are: it has a name (\<open>Error\<close>, \<open>TypeError\<close>, ...) and a message. A thrown
  \<open>null\<close> or \<open>undefined\<close>, which has no \<open>toString\<close>, is left out.
\<close>

datatype error = Error string string

text \<open>\<open>Error.prototype.toString\<close>: the name, the message, or both with a colon between.\<close>

fun toString :: "error \<Rightarrow> string" where
  "toString (Error name msg) =
     (if name = [] then msg else if msg = [] then name else name @ '': '' @ msg)"

datatype propValue = Single jsstring | Multi "jsstring list"

text \<open>The reply of \<open>getSyncContent\<close>; a \<open>noteId\<close> of \<open>None\<close> is the reply \<open>{id: null}\<close>.\<close>

record NoteContent =
  noteId :: "string option"
  noteTitle :: jsstring
  superType :: string
  properties :: "(jsstring \<times> propValue) list"
  bodyText :: jsstring
  tagList :: "jsstring list"
  noteType :: string
  relatedContentTitle :: "jsstring option"
  relatedContentSuperType :: "string option"

text \<open>The reply of \<open>getSyncTask\<close>: \<open>{valid, limit, result}\<close>, a task being its id.\<close>

record SyncTaskResponse =
  task_valid :: bool
  task_limit :: int
  task_result :: "string list"

record IntegrationResponse =
  integ_valid :: bool
  integ_failedTaskCount :: int

record LoginStatus =
  ls_status :: bool
  ls_token :: "string option"
  ls_id :: "string option"
  ls_name :: "string option"
  ls_avatar :: "string option"
  ls_invalidSessionId :: bool

record LoginResponse =
  qrCodeExpired :: "bool option"
  loginStatus :: LoginStatus

text \<open>The notices the plugin shows, by the place that shows them.\<close>

datatype notice =
    NoticeSyncStart
  | NoticeDisabled
  | NoticeUnbound
  | NoticeNoData
  | NoticeDone nat nat
  | NoticeSyncFailed

text \<open>
  Everything a run does to the outside is recorded, in order: what it persists, what it
  asks of the vault, the remote calls it makes, its pauses and its notices.
\<close>

datatype event =
    SaveData NewledgeSettings
  | CreateFolder jsstring
  | Exists jsstring
  | Write jsstring jsstring
  | GetIntegration string string
  | GetSyncTask string
  | GetSyncContent string string
  | SyncSuccess string string
  | SyncFailed string string string
  | Sleep nat
  | Notice notice

text \<open>
  The collaborators of the plugin, which are not part of it: the host's path normalisation,
  the token decoder (\<open>None\<close> when it throws, else the expiry claim), the remote service
  (\<open>Inl\<close> or \<open>Some\<close> an exception), the renderers, the clock, and whatever else runs
  while the plugin is suspended at an \<open>await\<close> (\<open>onunload\<close>, the settings tab), which
  can change the settings. The replies of \<open>getSyncTask\<close> and \<open>getLoginStatus\<close> are given
  call by call; whether \<open>saveData\<close> rejects is given by the number of suspensions so far.
\<close>

record env =
  normalizePath :: "jsstring \<Rightarrow> jsstring"
  jwtDecode :: "string \<Rightarrow> int option"
  getIntegration_r :: "string \<Rightarrow> string \<Rightarrow> error + IntegrationResponse"
  getSyncTask_r :: "nat \<Rightarrow> string \<Rightarrow> error + SyncTaskResponse"
  getSyncContent_r :: "string \<Rightarrow> string \<Rightarrow> error + NoteContent"
  syncSuccess_r :: "string \<Rightarrow> string \<Rightarrow> error option"
  syncFailed_r :: "string \<Rightarrow> string \<Rightarrow> string \<Rightarrow> error option"
  getLoginStatus_r :: "nat \<Rightarrow> string \<Rightarrow> error + LoginStatus"
  write_r :: "jsstring \<Rightarrow> jsstring \<Rightarrow> error option"
  saveData_r :: "nat \<Rightarrow> error option"
  renderLinkProperty :: "(jsstring \<rightharpoonup> propValue) \<Rightarrow> jsstring"
  renderRichTextProperty :: "(jsstring \<rightharpoonup> propValue) \<Rightarrow> jsstring"
  renderText :: "jsstring \<Rightarrow> jsstring \<Rightarrow> jsstring list \<Rightarrow> jsstring"
  clock :: "nat \<Rightarrow> int"
  interfere :: "nat \<Rightarrow> NewledgeSettings \<Rightarrow> NewledgeSettings"

text \<open>
  The state: the settings object, the paths present in the vault, the record of effects,
  and the number of suspensions so far.
\<close>

record world =
  settings :: NewledgeSettings
  vault :: "jsstring list"
  log :: "event list"
  ticks :: nat

definition emit :: "event \<Rightarrow> world \<Rightarrow> world" where
  "emit e w = w\<lparr>log := log w @ [e]\<rparr>"

text \<open>A suspension: the rest of the program may run and change the settings.\<close>

definition yield :: "env \<Rightarrow> world \<Rightarrow> world" where
  "yield env w = w\<lparr>settings := interfere env (ticks w) (settings w), ticks := Suc (ticks w)\<rparr>"

text \<open>An awaited call to the outside: recorded, then the run is suspended until it settles.\<close>

definition await :: "env \<Rightarrow> event \<Rightarrow> world \<Rightarrow> world" where
  "await env e w = yield env (emit e w)"

definition now :: "env \<Rightarrow> world \<Rightarrow> int" where
  "now env w = clock env (ticks w)"

definition fetches :: "event list \<Rightarrow> nat" where
  "fetches evs = length (filter (\<lambda>e. case e of GetSyncTask _ \<Rightarrow> True | _ \<Rightarrow> False) evs)"

text \<open>\<open>saveSettings\<close>: \<open>await this.saveData(this.settings)\<close>, which can reject.\<close>

definition saveSettings :: "env \<Rightarrow> world \<Rightarrow> error option \<times> world" where
  "saveSettings env w = (saveData_r env (ticks w), await env (SaveData (settings w)) w)"

definition sleep :: "env \<Rightarrow> nat \<Rightarrow> world \<Rightarrow> world" where
  "sleep env ms w = await env (Sleep ms) w"

text \<open>
  What is taken not to fail: the pauses, \<open>adapter.exists\<close> and the renderers. Every other
  call to the outside can reject, and the model has a branch for it.

  \<open>vault.createFolder\<close> rejects when the path is there already.
\<close>

definition createFolder :: "env \<Rightarrow> jsstring \<Rightarrow> world \<Rightarrow> error option \<times> world" where
  "createFolder env p w =
     (let w1 = await env (CreateFolder p) w
      in if p \<in> set (vault w) then (Some (Error ''Error'' ''Folder already exists.''), w1)
         else (None, w1\<lparr>vault := p # vault w1\<rparr>))"

definition adapter_exists :: "env \<Rightarrow> jsstring \<Rightarrow> world \<Rightarrow> bool \<times> world" where
  "adapter_exists env p w = (p \<in> set (vault w), await env (Exists p) w)"

definition adapter_write :: "env \<Rightarrow> jsstring \<Rightarrow> jsstring \<Rightarrow> world \<Rightarrow> error option \<times> world" where
  "adapter_write env p d w =
     (let w1 = await env (Write p d) w
      in case write_r env p d of
           Some e \<Rightarrow> (Some e, w1)
         | None \<Rightarrow> (None, w1\<lparr>vault := (if p \<in> set (vault w1) then vault w1 else p # vault w1)\<rparr>))"

section \<open>The path resolver\<close>

text \<open>
  \<open>_getFileName\<close>: the loop \<open>while (await adapter.exists(fileName))\<close> with its two
  variables \<open>i\<close> and \<open>fileName\<close>.
\<close>

function getFileName_loop ::
  "env \<Rightarrow> jsstring \<Rightarrow> nat \<Rightarrow> jsstring \<Rightarrow> world \<Rightarrow> jsstring \<times> world" where
  "getFileName_loop env name i fileName w =
     (let (found, w1) = adapter_exists env fileName w
      in if found then getFileName_loop env name (i + 1) (suffixed name (i + 1)) w1
         else (fileName, w1))"
  by pat_completeness auto

text \<open>
  The loop ends because the vault holds finitely many paths and the candidates are
  pairwise different: the decimal rendering is injective.
\<close>

lemma decimal_nonempty: "decimal n \<noteq> []"
  by (subst decimal.simps) simp

lemma decimal_small: "n < 10 \<Longrightarrow> decimal n = [0x30 + n]"
  by (subst decimal.simps) simp

lemma decimal_large: "\<not> n < 10 \<Longrightarrow> decimal n = decimal (n div 10) @ [0x30 + n mod 10]"
  by (subst decimal.simps) simp

lemma decimal_large_length: "\<not> n < 10 \<Longrightarrow> 2 \<le> length (decimal n)"
  using decimal_nonempty[of "n div 10"] by (simp add: decimal_large Suc_le_eq)

lemma decimal_inj: "decimal m = decimal n \<Longrightarrow> m = n"
proof (induction m arbitrary: n rule: decimal.induct)
  case (1 m)
  show ?case
  proof (cases "m < 10")
    case True
    show ?thesis
    proof (cases "n < 10")
      case n: True
      from "1.prems" True n show ?thesis by (simp add: decimal_small)
    next
      case n: False
      have "length (decimal m) = 1" using True by (simp add: decimal_small)
      with decimal_large_length[OF n] "1.prems" show ?thesis by simp
    qed
  next
    case False
    show ?thesis
    proof (cases "n < 10")
      case n: True
      have "length (decimal n) = 1" using n by (simp add: decimal_small)
      with decimal_large_length[OF False] "1.prems" show ?thesis by simp
    next
      case n: False
      from "1.prems" False n
      have "decimal (m div 10) = decimal (n div 10)" and r: "m mod 10 = n mod 10"
        by (simp_all add: decimal_large)
      with "1.IH"[OF False] have "m div 10 = n div 10" by blast
      with r show ?thesis by (metis div_mult_mod_eq)
    qed
  qed
qed

lemma suffixed_inj: "suffixed name i = suffixed name j \<Longrightarrow> i = j"
  by (simp add: suffixed_def decimal_inj)

termination getFileName_loop
proof (relation "measure (\<lambda>(env, name, i, fileName, w).
          if fileName \<in> set (vault w)
          then Suc (card {j. i < j \<and> suffixed name j \<in> set (vault w)}) else 0)", goal_cases)
  case 1
  show ?case by simp
next
  case (2 env name i fileName w x found w1)
  let ?V = "set (vault w)"
  let ?A = "{j. i + 1 < j \<and> suffixed name j \<in> ?V}"
  have inj: "inj (suffixed name)" by (auto simp: inj_def dest: suffixed_inj)
  have fin: "finite ?A"
    by (rule finite_subset[OF _ finite_vimageI[OF finite_set inj, of "vault w"]]) auto
  from 2 have f: "fileName \<in> ?V" and w1: "vault w1 = vault w"
    by (auto simp: adapter_exists_def await_def yield_def emit_def)
  have "suffixed name (i + 1) \<in> ?V \<Longrightarrow>
          {j. i < j \<and> suffixed name j \<in> ?V} = insert (i + 1) ?A"
    by (auto simp: Suc_lessI)
  then have "suffixed name (i + 1) \<in> ?V \<Longrightarrow>
          card {j. i < j \<and> suffixed name j \<in> ?V} = Suc (card ?A)"
    using fin by simp
  with f w1 show ?case by simp
qed

declare getFileName_loop.simps [simp del]

definition getFileName :: "env \<Rightarrow> jsstring \<Rightarrow> world \<Rightarrow> jsstring \<times> world" where
  "getFileName env name w = getFileName_loop env name 0 (name @ js ''.md'') w"

section \<open>The note materializer\<close>

text \<open>\<open>_initDir\<close>: three folders, every rejection of \<open>createFolder\<close> swallowed.\<close>

definition initDir :: "env \<Rightarrow> world \<Rightarrow> world" where
  "initDir env w =
     (let s = settings w;
          normalizedRoot = normalizePath env (rootDir s);
          linkDirPath = normalizePath env (normalizedRoot @ js ''/'' @ linkDir s);
          richTextDirPath = normalizePath env (normalizedRoot @ js ''/'' @ richTextDir s);
          dirsToCreate = [normalizedRoot, linkDirPath, richTextDirPath]
      in fold (\<lambda>dir w. snd (createFolder env dir w)) dirsToCreate w)"

record SyncNoteResult =
  pluginEnable :: bool
  taskExist :: bool
  syncSuccess :: bool

text \<open>
  The destination of a note (\<open>let fileName = ""\<close> and the \<open>if\<close> after it). The settings
  \<open>s\<close> are those read when \<open>_syncNote\<close> was entered.
\<close>

definition resolveFileName ::
  "env \<Rightarrow> NewledgeSettings \<Rightarrow> NoteContent \<Rightarrow> world \<Rightarrow> jsstring \<times> world" where
  "resolveFileName env s c w =
     (let normalizedTitle = normalizeTitle (normalizePath env) (noteTitle c);
          normalizedRoot = normalizePath env (rootDir s);
          normalizedLinkDir = normalizePath env (linkDir s);
          normalizedRichTextDir = normalizePath env (richTextDir s);
          sl = js ''/''
      in if superType c = ''SUPER_LINK'' then
           (let w1 = snd (createFolder env
                       (normalizePath env (normalizedRoot @ sl @ normalizedLinkDir)) w)
            in getFileName env (normalizedRoot @ sl @ normalizedLinkDir @ sl @ normalizedTitle) w1)
         else if superType c = ''SUPER_RICH_TEXT'' then
           (let plain = getFileName env
                          (normalizedRoot @ sl @ normalizedRichTextDir @ sl @ normalizedTitle) w
            in case relatedContentTitle c of
                 None \<Rightarrow> plain
               | Some relatedTitle \<Rightarrow>
                   if (noteType c = ''HIGHLIGHT'' \<or> noteType c = ''ANNOTATION'')
                      \<and> relatedTitle \<noteq> []
                      \<and> relatedContentSuperType c = Some ''SUPER_LINK''
                   then
                     (let normalizedRelatedContentTitle =
                            normalizeTitle (normalizePath env) relatedTitle;
                          relatedContentDir = normalizePath env
                            (normalizedRoot @ sl @ normalizedLinkDir @ sl
                               @ normalizedRelatedContentTitle);
                          w1 = snd (createFolder env (normalizePath env
                                 (normalizedRoot @ sl @ normalizedLinkDir @ sl
                                    @ normalizedRelatedContentTitle)) w)
                      in getFileName env (relatedContentDir @ sl @ normalizedTitle) w1)
                   else plain)
         else ([], w))"

text \<open>The document: the properties flattened into an object, then the two renderers.\<close>

definition renderNote :: "env \<Rightarrow> NoteContent \<Rightarrow> jsstring" where
  "renderNote env c =
     (let propertiesObj = fold (\<lambda>(key, value) obj. obj(key \<mapsto> value)) (properties c) Map.empty;
          propertiesText =
            (if superType c = ''SUPER_RICH_TEXT'' then renderRichTextProperty env propertiesObj
             else renderLinkProperty env propertiesObj)
      in renderText env propertiesText (bodyText c) (tagList c))"

text \<open>The \<open>try\<close> block of \<open>_syncNote\<close>; \<open>Inl\<close> is an exception leaving it.\<close>

definition syncNote_try ::
  "env \<Rightarrow> string \<Rightarrow> string \<Rightarrow> world \<Rightarrow> (error + SyncNoteResult) \<times> world" where
  "syncNote_try env tid tok w =
     (let s = settings w
      in if \<not> enable s then
           (Inr \<lparr>pluginEnable = False, taskExist = False, syncSuccess = False\<rparr>, w)
         else
           (let w1 = await env (GetSyncContent tid tok) w
            in case getSyncContent_r env tid tok of
                 Inl e \<Rightarrow> (Inl e, w1)
               | Inr c \<Rightarrow>
                   (case noteId c of
                      None \<Rightarrow>
                        (Inr \<lparr>pluginEnable = True, taskExist = False, syncSuccess = False\<rparr>, w1)
                    | Some _ \<Rightarrow>
                        (let (fileName, w2) = resolveFileName env s c w1;
                             noteText = renderNote env c;
                             (failure, w3) = adapter_write env fileName noteText w2
                         in case failure of
                              Some e \<Rightarrow> (Inl e, w3)
                            | None \<Rightarrow>
                                (let w4 = await env (SyncSuccess tid tok) w3;
                                     done = \<lparr>pluginEnable = True, taskExist = True,
                                             syncSuccess = True\<rparr>
                                 in case syncSuccess_r env tid tok of
                                      Some _ \<Rightarrow> (Inr done, w4)
                                    | None \<Rightarrow> (Inr done, w4))))))"

text \<open>
  \<open>_syncNote\<close>: the \<open>catch\<close> reports the failure, swallows what the report throws, and
  throws the exception it caught.
\<close>

definition syncNote ::
  "env \<Rightarrow> string \<Rightarrow> string \<Rightarrow> world \<Rightarrow> (error + SyncNoteResult) \<times> world" where
  "syncNote env tid tok w =
     (case syncNote_try env tid tok w of
        (Inr r, w1) \<Rightarrow> (Inr r, w1)
      | (Inl e, w1) \<Rightarrow>
          (let w2 = await env (SyncFailed tid tok (toString e)) w1
           in case syncFailed_r env tid tok (toString e) of
                Some _ \<Rightarrow> (Inl e, w2)
              | None \<Rightarrow> (Inl e, w2)))"

section \<open>The sync orchestrator\<close>

record counters =
  count :: nat
  successCount :: nat
  failedCount :: nat

text \<open>
  The loop \<open>for (const item of syncNoteList)\<close>: each \<open>break\<close> ends it, the \<open>finally\<close>
  pauses after every attempt, an exception of \<open>_syncNote\<close> is counted and the loop goes on.
\<close>

fun process_items :: "env \<Rightarrow> string \<Rightarrow> string list \<Rightarrow> counters \<Rightarrow> world \<Rightarrow> counters \<times> world" where
  "process_items env tok [] cs w = (cs, w)"
| "process_items env tok (item # rest) cs w =
     (let cs1 = cs\<lparr>count := count cs + 1\<rparr>
      in case syncNote env item tok w of
           (Inr r, w1) \<Rightarrow>
             if \<not> pluginEnable r then (cs1, sleep env 3000 w1)
             else if \<not> taskExist r then (cs1, sleep env 3000 w1)
             else if syncSuccess r then
               process_items env tok rest (cs1\<lparr>successCount := successCount cs1 + 1\<rparr>)
                 (sleep env 3000 w1)
             else (cs1, sleep env 3000 w1)
         | (Inl e, w1) \<Rightarrow>
             process_items env tok rest (cs1\<lparr>failedCount := failedCount cs1 + 1\<rparr>)
               (sleep env 3000 w1))"

text \<open>
  The loop \<open>while (hasMore)\<close>. Nothing bounds the number of its rounds (a remote that
  always answers with a full page keeps it going), so the model counts rounds down from
  a bound and is \<open>None\<close> when the bound is used up. The \<open>n\<close>-th call of \<open>getSyncTask\<close> of
  the process gets the \<open>n\<close>-th reply. \<open>Inl\<close> is an exception leaving the loop.
\<close>

fun sync_loop ::
  "nat \<Rightarrow> env \<Rightarrow> string \<Rightarrow> counters \<Rightarrow> world \<Rightarrow> ((error + counters) \<times> world) option" where
  "sync_loop 0 env tok cs w = None"
| "sync_loop (Suc n) env tok cs w =
     (if \<not> enable (settings w) then Some (Inr cs, emit (Notice NoticeDisabled) w)
      else
        (let w1 = await env (GetSyncTask tok) w
         in case getSyncTask_r env (fetches (log w)) tok of
              Inl e \<Rightarrow> Some (Inl e, w1)
            | Inr syncTaskResponse \<Rightarrow>
                if \<not> task_valid syncTaskResponse then
                  Some (Inr cs, emit (Notice NoticeUnbound) w1)
                else
                  (let syncNoteList = task_result syncTaskResponse
                   in if length syncNoteList = 0 then Some (Inr cs, w1)
                      else
                        (let (cs2, w2) = process_items env tok syncNoteList cs w1
                         in if int (length syncNoteList) = task_limit syncTaskResponse
                            then sync_loop n env tok cs2 w2
                            else Some (Inr cs2, w2)))))"

text \<open>How the \<open>try\<close> block of \<open>sync\<close> is left.\<close>

datatype completion = Returned | Completed | Threw error

definition sync_try :: "nat \<Rightarrow> env \<Rightarrow> bool \<Rightarrow> world \<Rightarrow> (completion \<times> world) option" where
  "sync_try fuel env message w =
     (case token (settings w) of
        None \<Rightarrow> Some (Returned, w)
      | Some tok \<Rightarrow>
          if tok = [] then Some (Returned, w)
          else if syncing (settings w) then Some (Returned, w)
          else
            (let (failure, w1) =
                   saveSettings env (w\<lparr>settings := (settings w)\<lparr>syncing := True\<rparr>\<rparr>)
             in case failure of
                  Some e \<Rightarrow> Some (Threw e, w1)
                | None \<Rightarrow>
                    (let w2 = initDir env w1;
                         w3 = (if message then emit (Notice NoticeSyncStart) w2 else w2)
                     in case sync_loop fuel env tok
                               \<lparr>count = 0, successCount = 0, failedCount = 0\<rparr> w3 of
                          None \<Rightarrow> None
                        | Some (Inl e, w4) \<Rightarrow> Some (Threw e, w4)
                        | Some (Inr cs, w4) \<Rightarrow>
                            if count cs = 0 then
                              Some (Completed, emit (Notice NoticeNoData) (sleep env 1000 w4))
                            else
                              Some (Completed,
                                    emit (Notice (NoticeDone (successCount cs) (failedCount cs)))
                                      w4))))"

text \<open>
  The three statements after the \<open>try\<close> statement of \<open>sync\<close>. Nothing catches a
  rejection of this last \<open>saveSettings\<close>: it is the rejection of \<open>sync\<close>.
\<close>

definition bookkeeping :: "env \<Rightarrow> world \<Rightarrow> error option \<times> world" where
  "bookkeeping env w =
     saveSettings env
       (w\<lparr>settings := (settings w)\<lparr>lastSyncTime := Some (now env w), syncing := False\<rparr>\<rparr>)"

text \<open>
  \<open>sync\<close>: a \<open>return\<close> inside the \<open>try\<close> block leaves the function; the \<open>catch\<close> shows a
  notice and falls through to the statements after it. The result is how the promise of
  \<open>sync\<close> settles (\<open>Some e\<close>: rejected with \<open>e\<close>) and the world then.
\<close>

definition sync :: "nat \<Rightarrow> env \<Rightarrow> bool \<Rightarrow> world \<Rightarrow> (error option \<times> world) option" where
  "sync fuel env message w =
     (case sync_try fuel env message w of
        None \<Rightarrow> None
      | Some (Returned, w1) \<Rightarrow> Some (None, w1)
      | Some (Completed, w1) \<Rightarrow> Some (bookkeeping env w1)
      | Some (Threw e, w1) \<Rightarrow> Some (bookkeeping env (emit (Notice NoticeSyncFailed) w1)))"

section \<open>The account validator\<close>

record TokenCheck =
  format :: bool
  unExpired :: bool

definition checkToken :: "env \<Rightarrow> int \<Rightarrow> string option \<Rightarrow> TokenCheck" where
  "checkToken env date_now tok =
     (case tok of
        None \<Rightarrow> \<lparr>format = False, unExpired = False\<rparr>
      | Some t \<Rightarrow>
          if t = [] then \<lparr>format = False, unExpired = False\<rparr>
          else
            (case jwtDecode env t of
               None \<Rightarrow> \<lparr>format = False, unExpired = False\<rparr>
             | Some exp \<Rightarrow>
                 if date_now \<ge> exp * 1000 then \<lparr>format = True, unExpired = False\<rparr>
                 else \<lparr>format = True, unExpired = True\<rparr>))"

record AccountCheck =
  valid :: bool
  failedTaskCount :: int

text \<open>
  The end of \<open>checkAccount\<close>, from \<open>if (!tokenValid || !integrationValid)\<close> on. \<open>Inl\<close> is
  an exception leaving \<open>checkAccount\<close>: nothing catches a rejection of \<open>saveSettings\<close>.
\<close>

definition checkAccount_finish ::
  "env \<Rightarrow> bool \<Rightarrow> bool \<Rightarrow> int \<Rightarrow> world \<Rightarrow> (error + AccountCheck) \<times> world" where
  "checkAccount_finish env tokenValid integrationValid failed w =
     (let r = \<lparr>valid = tokenValid \<and> integrationValid, failedTaskCount = failed\<rparr>
      in if \<not> tokenValid \<or> \<not> integrationValid then
           (let (failure, w1) =
                  saveSettings env
                    (w\<lparr>settings := (settings w)\<lparr>token := None, user := None,
                                                sessionId := None\<rparr>\<rparr>)
            in case failure of
                 Some e \<Rightarrow> (Inl e, w1)
               | None \<Rightarrow> (Inr r, w1))
         else (Inr r, w))"

definition checkAccount :: "env \<Rightarrow> world \<Rightarrow> (error + AccountCheck) \<times> world" where
  "checkAccount env w =
     (let tok = token (settings w);
          sid = sessionId (settings w);
          r = checkToken env (now env w) tok;
          tokenValid = (format r \<and> unExpired r)
      in case (tok, sid) of
           (Some t, Some sn) \<Rightarrow>
             if tokenValid \<and> t \<noteq> [] \<and> sn \<noteq> [] then
               (let w1 = await env (GetIntegration sn t) w
                in case getIntegration_r env sn t of
                     Inl e \<Rightarrow> (Inr \<lparr>valid = False, failedTaskCount = 0\<rparr>, w1)
                   | Inr integrationValidResponse \<Rightarrow>
                       checkAccount_finish env tokenValid
                         (integ_valid integrationValidResponse)
                         (integ_failedTaskCount integrationValidResponse) w1)
             else checkAccount_finish env tokenValid False 0 w
         | _ \<Rightarrow> checkAccount_finish env tokenValid False 0 w)"

section \<open>The login session poller\<close>

definition maxAttempts :: nat where
  "maxAttempts = 60"

definition expired_response :: LoginResponse where
  "expired_response =
     \<lparr>qrCodeExpired = Some True,
      loginStatus = \<lparr>ls_status = False, ls_token = None, ls_id = None, ls_name = None,
                     ls_avatar = None, ls_invalidSessionId = True\<rparr>\<rparr>"

text \<open>
  The callback of \<open>setInterval\<close> in \<open>_getLoginStatus\<close>, run tick after tick until it
  resolves the promise and clears the interval; each tick is taken to be over before the
  next one starts. \<open>attempts\<close> is the variable of the source, \<open>polls\<close> counts the calls
  of \<open>getLoginStatus\<close> made so far, and the \<open>n\<close>-th call gets the \<open>n\<close>-th reply. The
  result is what the promise resolves to, with the number of calls made.
\<close>

function getLoginStatus_ticks :: "env \<Rightarrow> string \<Rightarrow> nat \<Rightarrow> nat \<Rightarrow> LoginResponse \<times> nat" where
  "getLoginStatus_ticks env sid attempts polls =
     (if attempts \<ge> maxAttempts then (expired_response, polls)
      else
        (case getLoginStatus_r env polls sid of
           Inl e \<Rightarrow> getLoginStatus_ticks env sid (attempts + 1) (polls + 1)
         | Inr st \<Rightarrow>
             if ls_invalidSessionId st then (expired_response, polls + 1)
             else if ls_status st \<and> truthy (ls_token st) then
               (\<lparr>qrCodeExpired = None, loginStatus = st\<rparr>, polls + 1)
             else getLoginStatus_ticks env sid (attempts + 1) (polls + 1)))"
  by pat_completeness auto
termination
  by (relation "measure (\<lambda>(env, sid, attempts, polls). maxAttempts - attempts)") auto

declare getLoginStatus_ticks.simps [simp del]

text \<open>\<open>_getLoginStatus\<close>: \<open>let attempts = 1\<close>, then the ticks.\<close>

definition getLoginStatus :: "env \<Rightarrow> string \<Rightarrow> LoginResponse \<times> nat" where
  "getLoginStatus env sid = getLoginStatus_ticks env sid 1 0"

section \<open>Names used in the statements, and a small world to run the plugin in\<close>

text \<open>
  The paths \<open>name.md\<close>, \<open>name 1.md\<close>, \<open>name 2.md\<close>, ... in the order in which
  \<open>_getFileName\<close> tries them: the first one has no number.
\<close>

definition candidate :: "jsstring \<Rightarrow> nat \<Rightarrow> jsstring" where
  "candidate name k = (if k = 0 then name @ js ''.md'' else suffixed name k)"

definition example_settings :: NewledgeSettings where
  "example_settings =
     \<lparr>token = Some ''tok'', user = Some (''u1'', ''reader''), sessionId = Some ''sess'',
      syncing = False, rootDir = js ''root'', richTextDir = js ''notes'',
      linkDir = js ''links'', syncInterval = 60, lastSyncTime = None, enable = True\<rparr>"

definition example_note :: NoteContent where
  "example_note =
     \<lparr>noteId = Some ''n1'', noteTitle = js ''A/B'', superType = ''SUPER_LINK'',
      properties = [], bodyText = js ''body'', tagList = [], noteType = ''ARTICLE'',
      relatedContentTitle = None, relatedContentSuperType = None\<rparr>"

text \<open>
  A remote that accepts the account, has no task to hand out, knows every note asked for
  and never fails; nothing else touches the settings.
\<close>

definition example_env :: env where
  "example_env =
     \<lparr>normalizePath = (\<lambda>p. p),
      jwtDecode = (\<lambda>t. Some 2000000000),
      getIntegration_r = (\<lambda>sn t. Inr \<lparr>integ_valid = True, integ_failedTaskCount = 0\<rparr>),
      getSyncTask_r = (\<lambda>n t. Inr \<lparr>task_valid = True, task_limit = 2, task_result = []\<rparr>),
      getSyncContent_r = (\<lambda>tid t. Inr example_note),
      syncSuccess_r = (\<lambda>tid t. None),
      syncFailed_r = (\<lambda>tid t d. None),
      getLoginStatus_r = (\<lambda>n sn. Inl (Error ''Error'' ''offline'')),
      write_r = (\<lambda>p d. None),
      saveData_r = (\<lambda>n. None),
      renderLinkProperty = (\<lambda>obj. js ''link''),
      renderRichTextProperty = (\<lambda>obj. js ''rich''),
      renderText = (\<lambda>p t g. p @ t),
      clock = (\<lambda>n. 1000 * int n),
      interfere = (\<lambda>n s. s)\<rparr>"

definition example_world :: world where
  "example_world = \<lparr>settings = example_settings, vault = [], log = [], ticks = 0\<rparr>"

text \<open>Variants of the example remote.\<close>

definition pages_env :: env where
  "pages_env = example_env\<lparr>getSyncTask_r := (\<lambda>n t.
      if n < 2 then Inr \<lparr>task_valid = True, task_limit = 2, task_result = [''t1'', ''t2'']\<rparr>
      else Inr \<lparr>task_valid = True, task_limit = 2, task_result = [''t3'']\<rparr>)\<rparr>"

definition short_env :: env where
  "short_env = example_env\<lparr>getSyncTask_r := (\<lambda>n t.
      Inr \<lparr>task_valid = True, task_limit = 2, task_result = [''t1'']\<rparr>)\<rparr>"





definition offline_env :: env where
  "offline_env = example_env\<lparr>
      getSyncTask_r := (\<lambda>n t. Inl (Error ''Error'' ''network'')),
      getIntegration_r := (\<lambda>sn t. Inl (Error ''Error'' ''network''))\<rparr>"

definition unbound_env :: env where
  "unbound_env = example_env\<lparr>
      getIntegration_r := (\<lambda>sn t. Inr \<lparr>integ_valid = False, integ_failedTaskCount = 3\<rparr>)\<rparr>"

definition failing_env :: env where
  "failing_env = example_env\<lparr>
      write_r := (\<lambda>p d. Some (Error ''Error'' ''disk full'')),
      syncFailed_r := (\<lambda>tid t d. Some (Error ''Error'' ''network''))\<rparr>"

definition odd_env :: env where
  "odd_env = example_env\<lparr>
      getSyncContent_r := (\<lambda>tid t. Inr (example_note\<lparr>superType := ''SUPER_FILE''\<rparr>))\<rparr>"



text \<open>The write fails and the failure acknowledgment goes through.\<close>

definition write_fails_env :: env where
  "write_fails_env = example_env\<lparr>write_r := (\<lambda>p d. Some (Error ''TypeError'' []))\<rparr>"


definition is_failure_ack :: "event \<Rightarrow> bool" where
  "is_failure_ack e = (case e of SyncFailed _ _ _ \<Rightarrow> True | _ \<Rightarrow> False)"

definition no_fetch :: "event \<Rightarrow> bool" where
  "no_fetch e = (case e of GetSyncTask _ \<Rightarrow> False | _ \<Rightarrow> True)"

text \<open>The events of the vault, of the \<open>try\<close> block of \<open>_syncNote\<close>, and of one task.\<close>

definition vault_event :: "event \<Rightarrow> bool" where
  "vault_event e = (case e of CreateFolder _ \<Rightarrow> True | Exists _ \<Rightarrow> True | Write _ _ \<Rightarrow> True
                    | _ \<Rightarrow> False)"

definition try_event :: "event \<Rightarrow> bool" where
  "try_event e = (case e of CreateFolder _ \<Rightarrow> True | Exists _ \<Rightarrow> True | Write _ _ \<Rightarrow> True
                   | GetSyncContent _ _ \<Rightarrow> True | SyncSuccess _ _ \<Rightarrow> True | _ \<Rightarrow> False)"

definition item_event :: "event \<Rightarrow> bool" where
  "item_event e = (case e of GetSyncTask _ \<Rightarrow> False | GetIntegration _ _ \<Rightarrow> False
                    | SaveData _ \<Rightarrow> False | Notice _ \<Rightarrow> False | _ \<Rightarrow> True)"

text \<open>
  Nothing that runs during a suspension disables the plugin; nothing enables it (in the
  plugin only \<open>onload\<close> does); nothing clears the in-progress flag (\<open>onunload\<close> does).
\<close>

definition keeps_enabled :: "env \<Rightarrow> bool" where
  "keeps_enabled env = (\<forall>n s. enable s \<longrightarrow> enable (interfere env n s))"



text \<open>
  The settings \<open>s\<close> after \<open>k\<close> suspensions, the first of them being suspension number
  \<open>t\<close>, when the plugin itself assigns none of them in between.
\<close>

fun drift :: "env \<Rightarrow> nat \<Rightarrow> nat \<Rightarrow> NewledgeSettings \<Rightarrow> NewledgeSettings" where
  "drift env t 0 s = s"
| "drift env t (Suc k) s = drift env (Suc t) k (interfere env t s)"

text \<open>
  From \<open>w\<close> to \<open>w'\<close> the record of effects grew by events of kind \<open>P\<close> only, and the
  plugin assigned no setting: the settings changed only by what ran during the
  suspensions in between (so the plugin stayed enabled if it was and nothing disables it).
\<close>

definition steps :: "env \<Rightarrow> (event \<Rightarrow> bool) \<Rightarrow> world \<Rightarrow> world \<Rightarrow> bool" where
  "steps env P w w' =
     ((\<exists>evs. log w' = log w @ evs \<and> (\<forall>e\<in>set evs. P e))
      \<and> (\<exists>k. ticks w' = ticks w + k \<and> settings w' = drift env (ticks w) k (settings w))
      \<and> (keeps_enabled env \<longrightarrow> enable (settings w) \<longrightarrow> enable (settings w')))"


text \<open>
  A reply of \<open>getSyncTask\<close> after which the loop asks for another page (a valid, non-empty
  page as long as the reported limit), and one that ends the loop as a last page (valid,
  and empty or of another length than the limit).
\<close>

definition full_page :: "error + SyncTaskResponse \<Rightarrow> bool" where
  "full_page r = (case r of Inl _ \<Rightarrow> False
     | Inr p \<Rightarrow> task_valid p \<and> task_result p \<noteq> []
                \<and> int (length (task_result p)) = task_limit p)"

definition last_page :: "error + SyncTaskResponse \<Rightarrow> bool" where
  "last_page r = (case r of Inl _ \<Rightarrow> False
     | Inr p \<Rightarrow> task_valid p
                \<and> (task_result p = [] \<or> int (length (task_result p)) \<noteq> task_limit p))"

text \<open>The world in which the pagination loop of a run starts.\<close>

definition entered :: "env \<Rightarrow> bool \<Rightarrow> world \<Rightarrow> world" where
  "entered env message w =
     (let w1 = snd (saveSettings env (w\<lparr>settings := (settings w)\<lparr>syncing := True\<rparr>\<rparr>));
          w2 = initDir env w1
      in if message then emit (Notice NoticeSyncStart) w2 else w2)"

text \<open>
  The reply to the integration check of \<open>checkAccount\<close>, when \<open>checkAccount\<close> makes the
  call.
\<close>

definition integration_reply :: "env \<Rightarrow> world \<Rightarrow> (error + IntegrationResponse) option" where
  "integration_reply env w =
     (case (token (settings w), sessionId (settings w)) of
        (Some t, Some sn) \<Rightarrow>
          (let r = checkToken env (now env w) (Some t)
           in if format r \<and> unExpired r \<and> t \<noteq> [] \<and> sn \<noteq> []
              then Some (getIntegration_r env sn t) else None)
      | _ \<Rightarrow> None)"

text \<open>A reply of \<open>getLoginStatus\<close> that neither approves nor invalidates the session.\<close>

definition pending :: "error + LoginStatus \<Rightarrow> bool" where
  "pending r = (case r of Inl _ \<Rightarrow> True
      | Inr st \<Rightarrow> \<not> ls_invalidSessionId st \<and> \<not> (ls_status st \<and> truthy (ls_token st)))"

section \<open>Title sanitization\<close>

lemma set_collapse_ws: "set (collapse_ws s) \<subseteq> insert 0x20 (set s)"
proof (induction s rule: collapse_ws.induct)
  case 1
  then show ?case by simp
next
  case (2 c cs)
  then show ?case using set_dropWhileD[of _ is_space cs] by (auto split: if_splits)
qed

lemma set_trim: "set (trim s) \<subseteq> set s"
  by (auto simp: trim_def dest!: set_dropWhileD)

lemma space_not_illegal: "is_space c \<Longrightarrow> \<not> is_illegal c"
  by (auto simp: is_space_def is_illegal_def illegal_units_def)

lemma trim_all_space: "\<forall>c\<in>set s. is_space c \<Longrightarrow> trim s = []"
proof -
  assume "\<forall>c\<in>set s. is_space c"
  then have d: "dropWhile is_space s = []" by (induction s) auto
  show ?thesis unfolding trim_def d by simp
qed

lemma length_sanitize_title: "length (sanitize_title t) \<le> 100"
  by (simp add: sanitize_title_def Let_def MAX_LENGTH_def placeholder_title_def)

lemma sanitize_title_units:
  assumes c: "c \<in> set (sanitize_title t)"
  shows "\<not> is_control c \<and> \<not> is_illegal c"
proof -
  let ?r = "replace_illegal (strip_control t)"
  have r: "\<forall>x\<in>set ?r. \<not> is_control x \<and> \<not> is_illegal x"
    by (auto simp: replace_illegal_def strip_control_def is_control_def is_illegal_def
        illegal_units_def)
  have sp: "\<not> is_control 0x20 \<and> \<not> is_illegal 0x20"
    by (simp add: is_control_def is_illegal_def illegal_units_def)
  have ph: "\<forall>x\<in>set placeholder_title. \<not> is_control x \<and> \<not> is_illegal x"
    by (simp add: placeholder_title_def is_control_def is_illegal_def illegal_units_def)
  have t: "set (trim (collapse_ws ?r)) \<subseteq> insert 0x20 (set ?r)"
    using set_trim set_collapse_ws by blast
  from c have "c \<in> set placeholder_title \<or> c \<in> set (trim (collapse_ws ?r))"
    by (auto simp: sanitize_title_def Let_def split: if_splits dest: in_set_takeD)
  with r sp ph t show ?thesis by blast
qed

lemma sanitize_title_placeholder:
  assumes "\<forall>c\<in>set t. is_control c \<or> is_space c"
  shows "sanitize_title t = placeholder_title"
proof -
  have 1: "\<forall>c\<in>set (strip_control t). is_space c"
    using assms by (auto simp: strip_control_def)
  have 2: "replace_illegal (strip_control t) = strip_control t"
    unfolding replace_illegal_def using 1 space_not_illegal by (simp add: map_idI)
  have "is_space 0x20" by (simp add: is_space_def)
  with 1 have 3: "\<forall>c\<in>set (collapse_ws (strip_control t)). is_space c"
    using set_collapse_ws[of "strip_control t"] by auto
  show ?thesis
    by (simp add: sanitize_title_def Let_def 2 trim_all_space[OF 3])
qed

text \<open>
  C5. For every title, the sanitized title (the value \<open>_normalizeTitle\<close> hands to the
  host's path normalisation) has no code unit of the control class and none of
  \<open>< > : " / \ | ? *\<close>, is at most 100 code units long, and is the placeholder title when
  the input is empty or made only of code units that sanitization removes (control
  characters) or trims (white space).
\<close>

theorem sanitize_title_safe:
  "normalizeTitle np title = np (sanitize_title title)
   \<and> (\<forall>c\<in>set (sanitize_title title). \<not> is_control c \<and> \<not> is_illegal c)
   \<and> length (sanitize_title title) \<le> 100
   \<and> ((\<forall>c\<in>set title. is_control c \<or> is_space c)
        \<longrightarrow> sanitize_title title = placeholder_title)"
  using sanitize_title_units[of _ title] length_sanitize_title[of title]
    sanitize_title_placeholder[of title]
  by (auto simp: normalizeTitle_def)

text \<open>
  The title made of a tab, a space and a line feed is sanitized to the placeholder, whose
  first code unit is neither a control character nor an illegal one.
\<close>

theorem sanitize_title_safe_witness:
  "sanitize_title [0x09, 0x20, 0x0A] = placeholder_title
   \<and> length (sanitize_title [0x09, 0x20, 0x0A]) \<le> 100
   \<and> \<not> is_control (hd (sanitize_title [0x09, 0x20, 0x0A]))
   \<and> \<not> is_illegal (hd (sanitize_title [0x09, 0x20, 0x0A]))"
proof -
  have all: "\<forall>c\<in>set [0x09, 0x20, 0x0A]. is_control c \<or> is_space c"
    by (simp add: is_control_def is_space_def)
  from sanitize_title_safe[of _ "[0x09, 0x20, 0x0A]"] all
  have p: "sanitize_title [0x09, 0x20, 0x0A] = placeholder_title"
    and l: "length (sanitize_title [0x09, 0x20, 0x0A]) \<le> 100"
    and u: "\<forall>c\<in>set (sanitize_title [0x09, 0x20, 0x0A]). \<not> is_control c \<and> \<not> is_illegal c"
    by blast+
  have "hd (sanitize_title [0x09, 0x20, 0x0A]) \<in> set (sanitize_title [0x09, 0x20, 0x0A])"
    unfolding p by (simp add: placeholder_title_def)
  with p l u show ?thesis by blast
qed

section \<open>Path resolution\<close>

lemma vault_await [simp]: "vault (await env e w) = vault w"
  by (simp add: await_def yield_def emit_def)

lemma getFileName_loop_skips:
  "\<lbrakk>\<forall>k. i \<le> k \<and> k < N \<longrightarrow> candidate name k \<in> set (vault w);
    candidate name N \<notin> set (vault w); i \<le> N; fileName = candidate name i\<rbrakk>
   \<Longrightarrow> fst (getFileName_loop env name i fileName w) = candidate name N"
proof (induction env name i fileName w rule: getFileName_loop.induct)
  case (1 env name i fileName w)
  show ?case
  proof (cases "i = N")
    case True
    with "1.prems" show ?thesis
      by (subst getFileName_loop.simps) (simp add: adapter_exists_def)
  next
    case False
    with "1.prems" have lt: "i < N" and inV: "fileName \<in> set (vault w)" by auto
    have nxt: "suffixed name (i + 1) = candidate name (i + 1)"
      by (simp add: candidate_def)
    have rest: "\<forall>k. i + 1 \<le> k \<and> k < N \<longrightarrow>
                  candidate name k \<in> set (vault (await env (Exists fileName) w))"
      using "1.prems"(1) by simp
    have "fst (getFileName_loop env name (i + 1) (suffixed name (i + 1))
                 (await env (Exists fileName) w)) = candidate name N"
      using "1.prems"(2) lt inV rest nxt
      by (intro "1.IH"[of "adapter_exists env fileName w" True])
        (simp_all add: adapter_exists_def)
    with inV show ?thesis
      by (subst getFileName_loop.simps) (simp add: adapter_exists_def)
  qed
qed

lemma getFileName_loop_fresh:
  "fst (getFileName_loop env name i fileName w) \<notin> set (vault w)"
proof (induction env name i fileName w rule: getFileName_loop.induct)
  case (1 env name i fileName w)
  show ?case
  proof (cases "fileName \<in> set (vault w)")
    case True
    have "fst (getFileName_loop env name (i + 1) (suffixed name (i + 1))
                 (await env (Exists fileName) w))
            \<notin> set (vault (await env (Exists fileName) w))"
      using True
      by (intro "1.IH"[of "adapter_exists env fileName w" True])
        (auto simp: adapter_exists_def)
    with True show ?thesis
      by (subst getFileName_loop.simps) (simp add: adapter_exists_def)
  next
    case False
    then show ?thesis
      by (subst getFileName_loop.simps) (simp add: adapter_exists_def)
  qed
qed

text \<open>
  C4. For every base name and every vault in which the first \<open>N\<close> paths tried by the path
  resolver (\<open>name.md\<close>, \<open>name 1.md\<close>, ..., \<open>name N-1.md\<close>) exist and the next one does
  not, the resolver returns that next one: \<open>name N.md\<close>, which for \<open>N = 0\<close> is
  \<open>name.md\<close>. In every vault the path it returns does not exist in the vault at the
  time of the call. The resolver is a total function of a vault with finitely many
  paths, so it does return.
\<close>

theorem getFileName_unused:
  "((\<forall>k<N. candidate name k \<in> set (vault w)) \<and> candidate name N \<notin> set (vault w)
      \<longrightarrow> fst (getFileName env name w) = candidate name N)
   \<and> fst (getFileName env name w) \<notin> set (vault w)"
  using getFileName_loop_skips[of 0 N name w "name @ js ''.md''" env]
    getFileName_loop_fresh[of env name 0 "name @ js ''.md''" w]
  by (simp add: getFileName_def candidate_def)

text \<open>With \<open>a.md\<close> and \<open>a 1.md\<close> in the vault, \<open>a\<close> resolves to \<open>a 2.md\<close>.\<close>

theorem getFileName_unused_witness:
  "fst (getFileName example_env (js ''a'')
          (example_world\<lparr>vault := [js ''a.md'', js ''a 1.md'', js ''b.md'']\<rparr>)) = js ''a 2.md''
   \<and> js ''a 2.md'' \<notin> set [js ''a.md'', js ''a 1.md'', js ''b.md'']"
  using getFileName_unused[of 2 "js ''a''"
      "example_world\<lparr>vault := [js ''a.md'', js ''a 1.md'', js ''b.md'']\<rparr>" example_env]
  by (simp add: candidate_def suffixed_def decimal_small js_def less_Suc_eq numeral_2_eq_2)

section \<open>The record of effects\<close>

text \<open>
  What each operation adds to the record of effects, and that it leaves the plugin enabled
  when nothing outside disables it.
\<close>

lemma log_await [simp]: "log (await env e w) = log w @ [e]"
  by (simp add: await_def yield_def emit_def)
lemma log_emit [simp]: "log (emit e w) = log w @ [e]"
  by (simp add: emit_def)
lemma settings_emit [simp]: "settings (emit e w) = settings w"
  by (simp add: emit_def)
lemma settings_await [simp]: "settings (await env e w) = interfere env (ticks w) (settings w)"
  by (simp add: await_def yield_def emit_def)
lemma ticks_await [simp]: "ticks (await env e w) = Suc (ticks w)"
  by (simp add: await_def yield_def emit_def)

lemma drift_add: "drift env t (j + k) s = drift env (t + j) k (drift env t j s)"
  by (induction j arbitrary: t s) simp_all


lemma steps_refl: "steps env P w w"
  by (simp add: steps_def)

lemma steps_trans:
  assumes "steps env P w w1" and "steps env P w1 w2"
  shows "steps env P w w2"
proof -
  from assms obtain evs1 evs2 where
    "log w1 = log w @ evs1" "\<forall>e\<in>set evs1. P e" "log w2 = log w1 @ evs2" "\<forall>e\<in>set evs2. P e"
    by (auto simp: steps_def)
  then have "log w2 = log w @ (evs1 @ evs2) \<and> (\<forall>e\<in>set (evs1 @ evs2). P e)" by auto
  then have l: "\<exists>evs. log w2 = log w @ evs \<and> (\<forall>e\<in>set evs. P e)" by blast
  from assms obtain j k where
    "ticks w1 = ticks w + j" "settings w1 = drift env (ticks w) j (settings w)"
    "ticks w2 = ticks w1 + k" "settings w2 = drift env (ticks w1) k (settings w1)"
    by (auto simp: steps_def)
  then have "ticks w2 = ticks w + (j + k)
             \<and> settings w2 = drift env (ticks w) (j + k) (settings w)"
    by (simp add: drift_add)
  then have d: "\<exists>k. ticks w2 = ticks w + k \<and> settings w2 = drift env (ticks w) k (settings w)"
    by blast
  from l d assms show ?thesis by (simp add: steps_def)
qed

lemma steps_mono: "steps env P w w' \<Longrightarrow> (\<And>e. P e \<Longrightarrow> Q e) \<Longrightarrow> steps env Q w w'"
  unfolding steps_def by blast

lemma steps_await: "P e \<Longrightarrow> steps env P w (await env e w)"
proof -
  assume "P e"
  moreover have "ticks (await env e w) = ticks w + 1
                 \<and> settings (await env e w) = drift env (ticks w) 1 (settings w)"
    by simp
  then have "\<exists>k. ticks (await env e w) = ticks w + k
                 \<and> settings (await env e w) = drift env (ticks w) k (settings w)"
    by blast
  ultimately show ?thesis by (simp add: steps_def keeps_enabled_def)
qed

lemma ticks_emit [simp]: "ticks (emit e w) = ticks w"
  by (simp add: emit_def)

lemma steps_emit: "P e \<Longrightarrow> steps env P w (emit e w)"
proof -
  assume "P e"
  moreover have "ticks (emit e w) = ticks w + 0
                 \<and> settings (emit e w) = drift env (ticks w) 0 (settings w)"
    by simp
  then have "\<exists>k. ticks (emit e w) = ticks w + k
                 \<and> settings (emit e w) = drift env (ticks w) k (settings w)"
    by blast
  ultimately show ?thesis by (simp add: steps_def)
qed

lemma steps_vault: "steps env P w w' \<Longrightarrow> steps env P w (w'\<lparr>vault := v\<rparr>)"
  by (simp add: steps_def)

lemma steps_createFolder: "P (CreateFolder p) \<Longrightarrow> steps env P w (snd (createFolder env p w))"
  by (simp add: createFolder_def Let_def steps_await steps_vault)

lemma steps_adapter_write: "P (Write p d) \<Longrightarrow> steps env P w (snd (adapter_write env p d w))"
  by (simp add: adapter_write_def Let_def steps_await steps_vault split: option.splits)

lemma steps_getFileName_loop:
  "(\<And>p. P (Exists p)) \<Longrightarrow> steps env P w (snd (getFileName_loop env name i fileName w))"
proof (induction env name i fileName w rule: getFileName_loop.induct)
  case (1 env name i fileName w)
  show ?case
  proof (cases "fileName \<in> set (vault w)")
    case True
    have "steps env P (await env (Exists fileName) w)
            (snd (getFileName_loop env name (i + 1) (suffixed name (i + 1))
                    (await env (Exists fileName) w)))"
      using True "1.prems"
      by (intro "1.IH"[of "adapter_exists env fileName w" True]) (auto simp: adapter_exists_def)
    with steps_await[of P "Exists fileName" env w] "1.prems"
    have "steps env P w (snd (getFileName_loop env name (i + 1) (suffixed name (i + 1))
                    (await env (Exists fileName) w)))"
      using steps_trans by blast
    with True show ?thesis
      by (subst getFileName_loop.simps) (simp add: adapter_exists_def)
  next
    case False
    then show ?thesis using "1.prems"
      by (subst getFileName_loop.simps) (simp add: adapter_exists_def steps_await)
  qed
qed

lemma steps_getFileName:
  "(\<And>p. P (Exists p)) \<Longrightarrow> steps env P w (snd (getFileName env name w))"
  by (simp add: getFileName_def steps_getFileName_loop)

lemma steps_resolveFileName:
  "steps env vault_event w (snd (resolveFileName env s c w))"
proof -
  have cf: "\<And>p w. steps env vault_event w (snd (createFolder env p w))"
    by (rule steps_createFolder) (simp add: vault_event_def)
  have gf: "\<And>n w. steps env vault_event w (snd (getFileName env n w))"
    by (rule steps_getFileName) (simp add: vault_event_def)
  have cg: "\<And>p n w. steps env vault_event w (snd (getFileName env n (snd (createFolder env p w))))"
    using cf gf steps_trans by blast
  show ?thesis
    by (simp add: resolveFileName_def Let_def cg gf steps_refl split: option.splits)
qed

lemma vault_try_event: "vault_event e \<Longrightarrow> try_event e"
  by (cases e) (simp_all add: vault_event_def try_event_def)

lemma try_item_event: "try_event e \<Longrightarrow> item_event e"
  by (cases e) (simp_all add: try_event_def item_event_def)

lemma steps_syncNote_try: "steps env try_event w (snd (syncNote_try env tid tok w))"
proof (cases "enable (settings w)")
  case False
  then show ?thesis by (simp add: syncNote_try_def steps_refl)
next
  case True
  let ?w1 = "await env (GetSyncContent tid tok) w"
  have s1: "steps env try_event w ?w1"
    by (rule steps_await) (simp add: try_event_def)
  show ?thesis
  proof (cases "getSyncContent_r env tid tok")
    case (Inl e)
    with True s1 show ?thesis by (simp add: syncNote_try_def Let_def)
  next
    case (Inr c)
    show ?thesis
    proof (cases "noteId c")
      case None
      with True Inr s1 show ?thesis by (simp add: syncNote_try_def Let_def)
    next
      case (Some nid)
      obtain fileName w2 where r: "resolveFileName env (settings w) c ?w1 = (fileName, w2)"
        by (cases "resolveFileName env (settings w) c ?w1") blast
      obtain failure w3 where a: "adapter_write env fileName (renderNote env c) w2 = (failure, w3)"
        by (cases "adapter_write env fileName (renderNote env c) w2") blast
      have s2: "steps env try_event ?w1 w2"
        using steps_resolveFileName[of env ?w1 "settings w" c] r
        by (auto intro: steps_mono vault_try_event)
      have s3: "steps env try_event w2 w3"
        using steps_adapter_write[of try_event fileName "renderNote env c" env w2] a
        by (simp add: try_event_def)
      have s4: "steps env try_event w3 (await env (SyncSuccess tid tok) w3)"
        by (rule steps_await) (simp add: try_event_def)
      from s1 s2 s3 have s13: "steps env try_event w w3" using steps_trans by blast
      with s4 have s14: "steps env try_event w (await env (SyncSuccess tid tok) w3)"
        using steps_trans by blast
      from True Inr Some r a s13 s14 show ?thesis
        by (simp add: syncNote_try_def Let_def split: option.splits)
    qed
  qed
qed

lemma steps_syncNote: "steps env item_event w (snd (syncNote env tid tok w))"
proof -
  obtain r w1 where t: "syncNote_try env tid tok w = (r, w1)"
    by (cases "syncNote_try env tid tok w") blast
  have s1: "steps env item_event w w1"
    using steps_syncNote_try[of env w tid tok] t by (auto intro: steps_mono try_item_event)
  have "\<And>d. steps env item_event w1 (await env (SyncFailed tid tok d) w1)"
    by (rule steps_await) (simp add: item_event_def)
  with s1 have "\<And>d. steps env item_event w (await env (SyncFailed tid tok d) w1)"
    using steps_trans by blast
  with s1 t show ?thesis
    by (simp add: syncNote_def Let_def split: sum.splits option.splits)
qed

lemma steps_sleep: "P (Sleep ms) \<Longrightarrow> steps env P w (sleep env ms w)"
  by (simp add: sleep_def steps_await)

lemma steps_item_pause:
  "steps env item_event w (sleep env ms (snd (syncNote env tid tok w)))"
  using steps_syncNote[of env w tid tok]
    steps_sleep[of item_event ms env "snd (syncNote env tid tok w)"] steps_trans
  by (fastforce simp: item_event_def)

lemma steps_process_items:
  "steps env item_event w (snd (process_items env tok items cs w))"
proof (induction items arbitrary: cs w)
  case Nil
  then show ?case by (simp add: steps_refl)
next
  case (Cons item rest)
  obtain r w1 where t: "syncNote env item tok w = (r, w1)"
    by (cases "syncNote env item tok w") blast
  have p: "steps env item_event w (sleep env 3000 w1)"
    using steps_item_pause[of env w 3000 item tok] t by simp
  have "\<And>cs'. steps env item_event w (snd (process_items env tok rest cs' (sleep env 3000 w1)))"
    using p Cons.IH steps_trans by blast
  with p t show ?case
    by (simp add: Let_def split: sum.splits)
qed

section \<open>The pagination loop\<close>

lemma item_no_fetch: "item_event e \<Longrightarrow> no_fetch e"
  by (cases e) (simp_all add: item_event_def no_fetch_def)

lemma fetches_append [simp]: "fetches (xs @ ys) = fetches xs + fetches ys"
  by (simp add: fetches_def)

lemma fetches_no_fetch: "\<forall>e\<in>set evs. no_fetch e \<Longrightarrow> fetches evs = 0"
  by (induction evs) (auto simp: fetches_def no_fetch_def split: event.splits)

lemma steps_fetches: "steps env no_fetch w w' \<Longrightarrow> fetches (log w') = fetches (log w)"
  by (auto simp: steps_def fetches_no_fetch)

lemma steps_enabled:
  "steps env P w w' \<Longrightarrow> keeps_enabled env \<Longrightarrow> enable (settings w) \<Longrightarrow> enable (settings w')"
  by (simp add: steps_def)



lemma fetches_fetch [simp]: "fetches [GetSyncTask tok] = 1"
  by (simp add: fetches_def)

lemma process_items_page:
  assumes "process_items env tok items cs w1 = (cs2, w2)"
  shows "fetches (log w2) = fetches (log w1)"
    and "keeps_enabled env \<Longrightarrow> enable (settings w1) \<Longrightarrow> enable (settings w2)"
  using steps_process_items[of env w1 tok items cs] assms
  by (auto dest: steps_fetches[OF steps_mono, OF _ item_no_fetch] steps_enabled)

lemma sync_loop_pages:
  assumes ke: "keeps_enabled env"
  shows "\<lbrakk>enable (settings w);
          \<forall>j<k. full_page (getSyncTask_r env (fetches (log w) + j) tok);
          last_page (getSyncTask_r env (fetches (log w) + k) tok)\<rbrakk>
         \<Longrightarrow> \<exists>cs' w'. sync_loop (Suc k + m) env tok cs w = Some (Inr cs', w')
                \<and> fetches (log w') = fetches (log w) + Suc k"
proof (induction k arbitrary: w cs)
  case 0
  let ?w1 = "await env (GetSyncTask tok) w"
  from "0.prems"(3) obtain p where p: "getSyncTask_r env (fetches (log w)) tok = Inr p"
    and v: "task_valid p"
    and l: "task_result p = [] \<or> int (length (task_result p)) \<noteq> task_limit p"
    by (auto simp: last_page_def split: sum.splits)
  obtain cs2 w2 where pi: "process_items env tok (task_result p) cs ?w1 = (cs2, w2)"
    by (cases "process_items env tok (task_result p) cs ?w1") blast
  from process_items_page(1)[OF pi] have "fetches (log w2) = fetches (log w) + 1" by simp
  with "0.prems"(1) p v l pi show ?case
    by (auto simp: Let_def)
next
  case (Suc k)
  let ?w1 = "await env (GetSyncTask tok) w"
  from Suc.prems(2) have "full_page (getSyncTask_r env (fetches (log w)) tok)"
    by (metis add.right_neutral zero_less_Suc)
  then obtain p where p: "getSyncTask_r env (fetches (log w)) tok = Inr p"
    and v: "task_valid p" and ne: "task_result p \<noteq> []"
    and l: "int (length (task_result p)) = task_limit p"
    by (auto simp: full_page_def split: sum.splits)
  obtain cs2 w2 where pi: "process_items env tok (task_result p) cs ?w1 = (cs2, w2)"
    by (cases "process_items env tok (task_result p) cs ?w1") blast
  have e1: "enable (settings ?w1)" using ke Suc.prems(1) by (simp add: keeps_enabled_def)
  from process_items_page[OF pi] e1 ke
  have f2: "fetches (log w2) = fetches (log w) + 1" and e2: "enable (settings w2)" by simp_all
  have "\<forall>j<k. full_page (getSyncTask_r env (fetches (log w2) + j) tok)"
    using Suc.prems(2) f2 by (auto simp: add.assoc dest: spec[of _ "Suc _"])
  moreover have "last_page (getSyncTask_r env (fetches (log w2) + k) tok)"
    using Suc.prems(3) f2 by simp
  ultimately obtain cs' w' where
    "sync_loop (Suc k + m) env tok cs2 w2 = Some (Inr cs', w')"
    "fetches (log w') = fetches (log w2) + Suc k"
    using Suc.IH[OF e2] by blast
  with Suc.prems(1) p v ne l pi f2 show ?case
    by (auto simp: Let_def)
qed


lemma sync_loop_steps:
  "sync_loop n env tok cs w = Some (r, w') \<Longrightarrow> steps env (\<lambda>e. True) w w'"
proof (induction n arbitrary: w cs)
  case 0
  then show ?case by simp
next
  case (Suc n)
  let ?w1 = "await env (GetSyncTask tok) w"
  have s1: "steps env (\<lambda>e. True) w ?w1" by (rule steps_await) simp
  have n1: "\<And>x. steps env (\<lambda>e. True) w (emit (Notice x) w)" by (rule steps_emit) simp
  have "\<And>x. steps env (\<lambda>e. True) ?w1 (emit (Notice x) ?w1)" by (rule steps_emit) simp
  with s1 have n2: "\<And>x. steps env (\<lambda>e. True) w (emit (Notice x) ?w1)"
    using steps_trans by blast
  have p: "steps env (\<lambda>e. True) w w2"
    if pi: "process_items env tok items cs ?w1 = (cs2, w2)" for items cs2 w2
  proof -
    from steps_process_items[of env ?w1 tok items cs] pi
    have "steps env (\<lambda>e. True) ?w1 w2" by (auto intro: steps_mono)
    with s1 show ?thesis using steps_trans by blast
  qed
  have "steps env (\<lambda>e. True) w w'"
    if pi: "process_items env tok items cs ?w1 = (cs2, w2)"
      and l: "sync_loop n env tok cs2 w2 = Some (r, w')" for items cs2 w2
    using p[OF pi] Suc.IH[OF l] steps_trans by blast
  with p s1 n1 n2 steps_refl show ?case using Suc.prems
    by (auto simp: Let_def split: sum.splits prod.splits if_splits)
qed


declare sync_loop.simps [simp del]

lemma steps_saveSettings:
  "P (SaveData (settings w)) \<Longrightarrow> steps env P w (snd (saveSettings env w))"
  by (simp add: saveSettings_def steps_await)

lemma steps_initDir: "(\<And>p. P (CreateFolder p)) \<Longrightarrow> steps env P w (initDir env w)"
proof -
  assume P: "\<And>p. P (CreateFolder p)"
  have cf: "\<And>p w. steps env P w (snd (createFolder env p w))"
    by (rule steps_createFolder) (rule P)
  have "\<And>p q r w. steps env P w
          (snd (createFolder env r (snd (createFolder env q (snd (createFolder env p w))))))"
    using cf steps_trans by blast
  then show ?thesis by (simp add: initDir_def Let_def)
qed

lemma entered_steps:
  "steps env no_fetch (await env (SaveData ((settings w)\<lparr>syncing := True\<rparr>))
                         (w\<lparr>settings := (settings w)\<lparr>syncing := True\<rparr>\<rparr>))
     (entered env message w)"
proof -
  let ?w1 = "await env (SaveData ((settings w)\<lparr>syncing := True\<rparr>))
               (w\<lparr>settings := (settings w)\<lparr>syncing := True\<rparr>\<rparr>)"
  have "steps env no_fetch ?w1 (initDir env ?w1)"
    by (rule steps_initDir) (simp add: no_fetch_def)
  moreover have "steps env no_fetch (initDir env ?w1)
                   (emit (Notice NoticeSyncStart) (initDir env ?w1))"
    by (rule steps_emit) (simp add: no_fetch_def)
  ultimately show ?thesis
    using steps_trans by (auto simp: entered_def saveSettings_def Let_def)
qed

lemma entered_fetches: "fetches (log (entered env message w)) = fetches (log w)"
proof -
  from steps_fetches[OF entered_steps[where env = env and w = w and message = message]]
  show ?thesis by (simp add: fetches_def)
qed

lemma entered_enabled:
  assumes "keeps_enabled env" "enable (settings w)"
  shows "enable (settings (entered env message w))"
proof -
  have "enable (settings (await env (SaveData ((settings w)\<lparr>syncing := True\<rparr>))
                            (w\<lparr>settings := (settings w)\<lparr>syncing := True\<rparr>\<rparr>)))"
    using assms by (simp add: keeps_enabled_def)
  from steps_enabled[OF entered_steps assms(1) this] show ?thesis .
qed

lemma sync_try_entered:
  "token (settings w) = Some tok \<Longrightarrow> tok \<noteq> [] \<Longrightarrow> \<not> syncing (settings w) \<Longrightarrow>
   saveData_r env (ticks w) = None \<Longrightarrow>
   sync_try fuel env message w =
     (case sync_loop fuel env tok \<lparr>count = 0, successCount = 0, failedCount = 0\<rparr>
             (entered env message w) of
        None \<Rightarrow> None
      | Some (Inl e, w4) \<Rightarrow> Some (Threw e, w4)
      | Some (Inr cs, w4) \<Rightarrow>
          if count cs = 0 then Some (Completed, emit (Notice NoticeNoData) (sleep env 1000 w4))
          else Some (Completed, emit (Notice (NoticeDone (successCount cs) (failedCount cs))) w4))"
  by (simp add: sync_try_def entered_def saveSettings_def Let_def)

lemma sync_try_rejected:
  "token (settings w) = Some tok \<Longrightarrow> tok \<noteq> [] \<Longrightarrow> \<not> syncing (settings w) \<Longrightarrow>
   saveData_r env (ticks w) = Some e \<Longrightarrow>
   sync_try fuel env message w =
     Some (Threw e, await env (SaveData ((settings w)\<lparr>syncing := True\<rparr>))
                      (w\<lparr>settings := (settings w)\<lparr>syncing := True\<rparr>\<rparr>))"
  by (simp add: sync_try_def saveSettings_def Let_def)

lemma log_bookkeeping:
  "log (snd (bookkeeping env w)) =
     log w @ [SaveData ((settings w)\<lparr>lastSyncTime := Some (now env w), syncing := False\<rparr>)]"
  by (simp add: bookkeeping_def saveSettings_def)

text \<open>
  A run that starts and ends: what happens between the first \<open>saveSettings\<close> and the
  exit bookkeeping assigns no setting, and after the loop nothing is fetched.
\<close>

lemma sync_passed:
  assumes "token (settings w) = Some tok" "tok \<noteq> []" "\<not> syncing (settings w)"
    and "sync fuel env message w = Some (r, w')"
  shows "\<exists>w5. (r, w') = bookkeeping env w5
           \<and> steps env (\<lambda>e. True)
                (await env (SaveData ((settings w)\<lparr>syncing := True\<rparr>))
                   (w\<lparr>settings := (settings w)\<lparr>syncing := True\<rparr>\<rparr>)) w5
           \<and> (saveData_r env (ticks w) = None \<longrightarrow>
                (\<exists>x w4 evs. sync_loop fuel env tok
                       \<lparr>count = 0, successCount = 0, failedCount = 0\<rparr>
                       (entered env message w) = Some (x, w4)
                   \<and> log w5 = log w4 @ evs \<and> (\<forall>e\<in>set evs. no_fetch e)))"
proof (cases "saveData_r env (ticks w)")
  case (Some e)
  let ?w1 = "await env (SaveData ((settings w)\<lparr>syncing := True\<rparr>))
               (w\<lparr>settings := (settings w)\<lparr>syncing := True\<rparr>\<rparr>)"
  from assms Some have "(r, w') = bookkeeping env (emit (Notice NoticeSyncFailed) ?w1)"
    by (simp add: sync_def sync_try_rejected)
  moreover have "steps env (\<lambda>e. True) ?w1 (emit (Notice NoticeSyncFailed) ?w1)"
    by (rule steps_emit) simp
  ultimately show ?thesis using Some by auto
next
  case None
  let ?w1 = "await env (SaveData ((settings w)\<lparr>syncing := True\<rparr>))
               (w\<lparr>settings := (settings w)\<lparr>syncing := True\<rparr>\<rparr>)"
  let ?l = "sync_loop fuel env tok \<lparr>count = 0, successCount = 0, failedCount = 0\<rparr>
              (entered env message w)"
  from assms None obtain x w4 where l: "?l = Some (x, w4)"
    by (cases ?l) (auto simp: sync_def sync_try_entered)
  have "steps env (\<lambda>e. True) ?w1 (entered env message w)"
    using entered_steps[of env w message] by (auto intro: steps_mono)
  with sync_loop_steps[OF l] have s4: "steps env (\<lambda>e. True) ?w1 w4"
    using steps_trans by blast
  have fin: "\<exists>w5 evs. (r, w') = bookkeeping env w5 \<and> steps env (\<lambda>e. True) w4 w5
               \<and> log w5 = log w4 @ evs \<and> (\<forall>e\<in>set evs. no_fetch e)"
  proof (cases x)
    case (Inl e)
    with l assms None have "(r, w') = bookkeeping env (emit (Notice NoticeSyncFailed) w4)"
      by (simp add: sync_def sync_try_entered)
    moreover have "steps env (\<lambda>e. True) w4 (emit (Notice NoticeSyncFailed) w4)"
      by (rule steps_emit) simp
    moreover have "log (emit (Notice NoticeSyncFailed) w4) = log w4 @ [Notice NoticeSyncFailed]"
      by simp
    ultimately show ?thesis by (fastforce simp: no_fetch_def)
  next
    case (Inr cs)
    show ?thesis
    proof (cases "count cs = 0")
      case True
      let ?w5 = "emit (Notice NoticeNoData) (sleep env 1000 w4)"
      from True Inr l assms None have "(r, w') = bookkeeping env ?w5"
        by (simp add: sync_def sync_try_entered)
      moreover have "steps env (\<lambda>e. True) w4 (sleep env 1000 w4)"
        by (rule steps_sleep) simp
      then have "steps env (\<lambda>e. True) w4 ?w5"
        using steps_emit[of "\<lambda>e. True" "Notice NoticeNoData" env "sleep env 1000 w4"]
          steps_trans by blast
      moreover have "log ?w5 = log w4 @ [Sleep 1000, Notice NoticeNoData]"
        by (simp add: sleep_def)
      ultimately show ?thesis by (fastforce simp: no_fetch_def)
    next
      case False
      let ?w5 = "emit (Notice (NoticeDone (successCount cs) (failedCount cs))) w4"
      from False Inr l assms None have "(r, w') = bookkeeping env ?w5"
        by (simp add: sync_def sync_try_entered)
      moreover have "steps env (\<lambda>e. True) w4 ?w5" by (rule steps_emit) simp
      moreover have "log ?w5 = log w4 @ [Notice (NoticeDone (successCount cs) (failedCount cs))]"
        by simp
      ultimately show ?thesis by (fastforce simp: no_fetch_def)
    qed
  qed
  then obtain w5 evs where "(r, w') = bookkeeping env w5" "steps env (\<lambda>e. True) w4 w5"
    "log w5 = log w4 @ evs" "\<forall>e\<in>set evs. no_fetch e" by blast
  with s4 l show ?thesis using steps_trans by blast
qed

lemma sync_returns:
  assumes "token (settings w) = Some tok" "tok \<noteq> []" "\<not> syncing (settings w)"
    and "saveData_r env (ticks w) = None \<longrightarrow>
         sync_loop fuel env tok \<lparr>count = 0, successCount = 0, failedCount = 0\<rparr>
           (entered env message w) \<noteq> None"
  shows "\<exists>r w'. sync fuel env message w = Some (r, w')"
proof -
  have "\<exists>p. sync fuel env message w = Some p"
  proof (cases "saveData_r env (ticks w)")
    case (Some e)
    with assms(1-3) show ?thesis by (simp add: sync_def sync_try_rejected)
  next
    case None
    with assms show ?thesis
      by (auto simp: sync_def sync_try_entered
          split: option.splits sum.splits completion.splits)
  qed
  then show ?thesis by (metis surj_pair)
qed

section \<open>The materializer\<close>

lemma syncNote_try_log:
  "\<exists>pre. log (snd (syncNote_try env tid tok w)) = log w @ pre \<and> filter is_failure_ack pre = []"
proof -
  from steps_syncNote_try[of env w tid tok] obtain pre where
    l: "log (snd (syncNote_try env tid tok w)) = log w @ pre" and t: "\<forall>e\<in>set pre. try_event e"
    by (auto simp: steps_def)
  have "\<And>e. try_event e \<Longrightarrow> \<not> is_failure_ack e"
    by (auto simp: try_event_def is_failure_ack_def split: event.splits)
  with t have "filter is_failure_ack pre = []" by (auto simp: filter_empty_conv)
  with l show ?thesis by blast
qed

text \<open>
  C8. \<open>_syncNote\<close> raises exactly the exception that left its \<open>try\<close> block (an
  \<open>Error\<close> object, as every exception of the model), and it does so after one failure
  acknowledgment for that task and credential carrying the description
  of that exception (\<open>error.toString()\<close>), whatever \<open>syncFailed\<close> answers: an exception
  of the acknowledgment itself is swallowed. Nothing the \<open>try\<close> block did before is a
  failure acknowledgment, and a \<open>try\<close> block that returns is passed on as it is, with no
  failure acknowledgment. In particular, when the write fails after the note's existence
  was confirmed (the plugin enabled, the note fetched, its id present), the exception of
  the write is the one that leaves the \<open>try\<close> block, right after the write.
\<close>

theorem syncNote_failure_ack:
  "(syncNote_try env tid tok w = (Inl e, w1) \<longrightarrow>
      syncNote env tid tok w = (Inl e, await env (SyncFailed tid tok (toString e)) w1)
      \<and> (\<exists>pre. log w1 = log w @ pre \<and> filter is_failure_ack pre = []))
   \<and> (syncNote_try env tid tok w = (Inr r, w1) \<longrightarrow> syncNote env tid tok w = (Inr r, w1))
   \<and> (enable (settings w) \<and> getSyncContent_r env tid tok = Inr c \<and> noteId c = Some nid
        \<and> resolveFileName env (settings w) c (await env (GetSyncContent tid tok) w)
            = (fileName, w2)
        \<and> write_r env fileName (renderNote env c) = Some e
      \<longrightarrow> syncNote_try env tid tok w
            = (Inl e, await env (Write fileName (renderNote env c)) w2))"
proof (intro conjI impI)
  assume t: "syncNote_try env tid tok w = (Inl e, w1)"
  then show "syncNote env tid tok w = (Inl e, await env (SyncFailed tid tok (toString e)) w1)"
    by (simp add: syncNote_def Let_def split: option.splits)
  from syncNote_try_log[of env tid tok w] t
  show "\<exists>pre. log w1 = log w @ pre \<and> filter is_failure_ack pre = []" by simp
next
  assume "syncNote_try env tid tok w = (Inr r, w1)"
  then show "syncNote env tid tok w = (Inr r, w1)" by (simp add: syncNote_def)
next
  assume "enable (settings w) \<and> getSyncContent_r env tid tok = Inr c \<and> noteId c = Some nid
        \<and> resolveFileName env (settings w) c (await env (GetSyncContent tid tok) w)
            = (fileName, w2)
        \<and> write_r env fileName (renderNote env c) = Some e"
  then show "syncNote_try env tid tok w
            = (Inl e, await env (Write fileName (renderNote env c)) w2)"
    by (simp add: syncNote_try_def adapter_write_def Let_def)
qed

text \<open>
  The write fails with \<open>Error: disk full\<close> and the acknowledgment fails with
  \<open>Error: network\<close>: the caller gets the exception of the write, after one acknowledgment
  that describes it. The write fails with a \<open>TypeError\<close> without message and the
  acknowledgment goes through: the caller gets the \<open>TypeError\<close>, after one acknowledgment
  with the description \<open>TypeError\<close>. Nothing fails: the result of the \<open>try\<close> block is
  returned and no failure is acknowledged.
\<close>

theorem syncNote_failure_ack_witness:
  "syncFailed_r failing_env ''t1'' ''tok'' ''Error: disk full'' = Some (Error ''Error'' ''network'')
   \<and> fst (syncNote failing_env ''t1'' ''tok'' example_world) = Inl (Error ''Error'' ''disk full'')
   \<and> (\<exists>f pre. log (snd (syncNote failing_env ''t1'' ''tok'' example_world))
                = GetSyncContent ''t1'' ''tok'' # pre
                  @ [Write f (js ''linkbody''), SyncFailed ''t1'' ''tok'' ''Error: disk full'']
              \<and> filter is_failure_ack pre = [])
   \<and> syncFailed_r write_fails_env ''t1'' ''tok'' ''TypeError'' = None
   \<and> fst (syncNote write_fails_env ''t1'' ''tok'' example_world) = Inl (Error ''TypeError'' [])
   \<and> (\<exists>f pre. log (snd (syncNote write_fails_env ''t1'' ''tok'' example_world))
                = GetSyncContent ''t1'' ''tok'' # pre
                  @ [Write f (js ''linkbody''), SyncFailed ''t1'' ''tok'' ''TypeError'']
              \<and> filter is_failure_ack pre = [])
   \<and> syncNote example_env ''t1'' ''tok'' example_world
       = syncNote_try example_env ''t1'' ''tok'' example_world
   \<and> filter is_failure_ack (log (snd (syncNote example_env ''t1'' ''tok'' example_world))) = []"
proof -
  have run: "fst (syncNote env ''t1'' ''tok'' example_world) = Inl e
     \<and> (\<exists>f pre. log (snd (syncNote env ''t1'' ''tok'' example_world))
                = GetSyncContent ''t1'' ''tok'' # pre
                  @ [Write f (js ''linkbody''), SyncFailed ''t1'' ''tok'' (toString e)]
              \<and> filter is_failure_ack pre = [])"
    if en: "getSyncContent_r env ''t1'' ''tok'' = Inr example_note"
      and wr: "\<And>f. write_r env f (js ''linkbody'') = Some e"
      and rn: "renderNote env example_note = js ''linkbody''"
    for env e
  proof -
    let ?w0 = "await env (GetSyncContent ''t1'' ''tok'') example_world"
    obtain f w2 where r: "resolveFileName env (settings example_world) example_note ?w0 = (f, w2)"
      by (cases "resolveFileName env (settings example_world) example_note ?w0") blast
    have h: "enable (settings example_world) \<and> getSyncContent_r env ''t1'' ''tok'' = Inr example_note
        \<and> noteId example_note = Some ''n1''
        \<and> resolveFileName env (settings example_world) example_note
            (await env (GetSyncContent ''t1'' ''tok'') example_world) = (f, w2)
        \<and> write_r env f (renderNote env example_note) = Some e"
      using en wr r rn by (simp add: example_world_def example_settings_def example_note_def)
    let ?w3 = "await env (Write f (renderNote env example_note)) w2"
    from syncNote_failure_ack[of env "''t1''" "''tok''" example_world e _ _ example_note
        "''n1''" f w2, THEN conjunct2, THEN conjunct2, rule_format, OF h]
    have t: "syncNote_try env ''t1'' ''tok'' example_world = (Inl e, ?w3)" .
    from syncNote_failure_ack[of env "''t1''" "''tok''" example_world e ?w3,
        THEN conjunct1, rule_format, OF t]
    have s: "syncNote env ''t1'' ''tok'' example_world
               = (Inl e, await env (SyncFailed ''t1'' ''tok'' (toString e)) ?w3)"
      and "\<exists>pre. log ?w3 = log example_world @ pre \<and> filter is_failure_ack pre = []"
      by simp_all
    then obtain pre where p: "log ?w3 = pre" "filter is_failure_ack pre = []"
      by (auto simp: example_world_def)
    from p(1) have l2: "pre = log w2 @ [Write f (js ''linkbody'')]" by (simp add: rn)
    from steps_resolveFileName[of env ?w0 "settings example_world" example_note] r
    obtain q where q: "log w2 = log ?w0 @ q" by (auto simp: steps_def)
    then have q': "log w2 = GetSyncContent ''t1'' ''tok'' # q"
      by (simp add: example_world_def await_def emit_def yield_def)
    from p(2) l2 q' have "filter is_failure_ack q = []" by (simp add: is_failure_ack_def)
    with s l2 q' p(1) show ?thesis by (simp add: rn)
  qed
  have rn: "renderNote env example_note = js ''linkbody''"
    if "renderLinkProperty env = (\<lambda>obj. js ''link'')" "renderText env = (\<lambda>p t g. p @ t)" for env
    using that by (simp add: renderNote_def example_note_def js_def)
  have a: "fst (syncNote failing_env ''t1'' ''tok'' example_world) = Inl (Error ''Error'' ''disk full'')
     \<and> (\<exists>f pre. log (snd (syncNote failing_env ''t1'' ''tok'' example_world))
                = GetSyncContent ''t1'' ''tok'' # pre
                  @ [Write f (js ''linkbody''),
                     SyncFailed ''t1'' ''tok'' (toString (Error ''Error'' ''disk full''))]
              \<and> filter is_failure_ack pre = [])"
    by (rule run) (simp_all add: rn failing_env_def example_env_def)
  have b: "fst (syncNote write_fails_env ''t1'' ''tok'' example_world) = Inl (Error ''TypeError'' [])
     \<and> (\<exists>f pre. log (snd (syncNote write_fails_env ''t1'' ''tok'' example_world))
                = GetSyncContent ''t1'' ''tok'' # pre
                  @ [Write f (js ''linkbody''),
                     SyncFailed ''t1'' ''tok'' (toString (Error ''TypeError'' []))]
              \<and> filter is_failure_ack pre = [])"
    by (rule run) (simp_all add: rn write_fails_env_def example_env_def)
  obtain r w1 where t: "syncNote_try example_env ''t1'' ''tok'' example_world = (Inr r, w1)"
    by (cases "syncNote_try example_env ''t1'' ''tok'' example_world")
      (auto simp: syncNote_try_def adapter_write_def example_env_def example_world_def
        example_settings_def example_note_def Let_def split: prod.splits)
  from syncNote_failure_ack[of example_env "''t1''" "''tok''" example_world _ w1 r,
      THEN conjunct2, THEN conjunct1, rule_format, OF t] t
  have c: "syncNote example_env ''t1'' ''tok'' example_world
       = syncNote_try example_env ''t1'' ''tok'' example_world" by simp
  from syncNote_try_log[of example_env "''t1''" "''tok''" example_world]
  have d: "filter is_failure_ack (log (snd (syncNote_try example_env ''t1'' ''tok'' example_world))) = []"
    by (auto simp: example_world_def)
  have e: "syncFailed_r failing_env ''t1'' ''tok'' ''Error: disk full'' = Some (Error ''Error'' ''network'')"
    "syncFailed_r write_fails_env ''t1'' ''tok'' ''TypeError'' = None"
    by (simp_all add: failing_env_def write_fails_env_def example_env_def)
  from a b c d e show ?thesis by simp
qed

text \<open>
  C10. For every fetched note (the plugin enabled, the note's id present) whose super-type
  is neither \<open>SUPER_LINK\<close> nor \<open>SUPER_RICH_TEXT\<close>, the destination step assigns no path:
  the file name stays the empty string, nothing is asked of the vault, and the document
  is written to the empty path; the call then acknowledges the success or the failure of
  that write.
\<close>

theorem syncNote_no_destination:
  assumes "enable (settings w)" and "getSyncContent_r env tid tok = Inr c"
    and "noteId c = Some nid"
    and "superType c \<noteq> ''SUPER_LINK''" and "superType c \<noteq> ''SUPER_RICH_TEXT''"
  shows "resolveFileName env s c w1 = ([], w1)
       \<and> log (snd (syncNote env tid tok w))
           = log w @ [GetSyncContent tid tok, Write [] (renderNote env c),
                      (case write_r env [] (renderNote env c) of
                         Some e \<Rightarrow> SyncFailed tid tok (toString e)
                       | None \<Rightarrow> SyncSuccess tid tok)]"
proof
  show r: "resolveFileName env s c w1 = ([], w1)" for s w1
    using assms(4,5) by (simp add: resolveFileName_def Let_def)
  show "log (snd (syncNote env tid tok w))
           = log w @ [GetSyncContent tid tok, Write [] (renderNote env c),
                      (case write_r env [] (renderNote env c) of
                         Some e \<Rightarrow> SyncFailed tid tok (toString e)
                       | None \<Rightarrow> SyncSuccess tid tok)]"
    using assms(1-3)
    by (simp add: syncNote_def syncNote_try_def r adapter_write_def Let_def
        split: option.splits)
qed

text \<open>
  A note of super-type \<open>SUPER_FILE\<close> is written to the empty path.
\<close>

theorem syncNote_no_destination_witness:
  "log (snd (syncNote odd_env ''t1'' ''tok'' example_world))
     = [GetSyncContent ''t1'' ''tok'', Write [] (js ''linkbody''), SyncSuccess ''t1'' ''tok'']"
proof -
  have "log (snd (syncNote odd_env ''t1'' ''tok'' example_world))
     = log example_world @ [GetSyncContent ''t1'' ''tok'',
          Write [] (renderNote odd_env (example_note\<lparr>superType := ''SUPER_FILE''\<rparr>)),
          (case write_r odd_env [] (renderNote odd_env (example_note\<lparr>superType := ''SUPER_FILE''\<rparr>)) of
             Some e \<Rightarrow> SyncFailed ''t1'' ''tok'' (toString e)
           | None \<Rightarrow> SyncSuccess ''t1'' ''tok'')]"
    by (rule syncNote_no_destination[where nid = "''n1''", THEN conjunct2])
      (simp_all add: example_world_def example_settings_def odd_env_def example_env_def
        example_note_def)
  then show ?thesis
    by (simp add: example_world_def odd_env_def example_env_def renderNote_def example_note_def
        js_def)
qed

section \<open>The orchestrator\<close>

text \<open>
  The definitions unfolded to run the plugin in the example world.
\<close>

lemmas run_defs = sync_def sync_try_def bookkeeping_def saveSettings_def initDir_def
  createFolder_def sleep_def await_def yield_def emit_def now_def Let_def
  example_world_def example_settings_def example_env_def js_def








text \<open>
  C6. In a sync run that starts (a credential, no run in progress) and is not otherwise
  aborted (the plugin is enabled and stays so, no fetch fails, the binding is valid), a
  further page is fetched after every non-empty page as long as the reported limit and
  after no other page: when the remote answers with \<open>k\<close> such full pages and then with
  an empty page or one of another length, the run ends and has fetched exactly \<open>k + 1\<close>
  pages, whatever the materializations of the tasks do. (A run whose first save of the
  settings rejects is aborted there: it ends without any fetch.)
\<close>

theorem sync_fetch_count:
  assumes "token (settings w) = Some tok" "tok \<noteq> []" "\<not> syncing (settings w)"
    and "enable (settings w)" "keeps_enabled env"
    and "\<forall>j<k. full_page (getSyncTask_r env (fetches (log w) + j) tok)"
    and "last_page (getSyncTask_r env (fetches (log w) + k) tok)"
  shows "\<exists>r w'. sync (Suc k + m) env message w = Some (r, w')
             \<and> fetches (log w')
                 = fetches (log w)
                   + (case saveData_r env (ticks w) of None \<Rightarrow> Suc k | Some e \<Rightarrow> 0)"
proof (cases "saveData_r env (ticks w)")
  case (Some e)
  let ?s0 = "(settings w)\<lparr>syncing := True\<rparr>"
  have "sync (Suc k + m) env message w
          = Some (bookkeeping env (emit (Notice NoticeSyncFailed)
                     (await env (SaveData ?s0) (w\<lparr>settings := ?s0\<rparr>))))"
    using assms(1-3) Some by (simp add: sync_def sync_try_rejected)
  moreover have "fetches (log (snd (bookkeeping env (emit (Notice NoticeSyncFailed)
                     (await env (SaveData ?s0) (w\<lparr>settings := ?s0\<rparr>))))))
                   = fetches (log w)"
    by (simp add: log_bookkeeping) (simp add: fetches_def)
  ultimately show ?thesis using Some by (metis add.right_neutral option.simps(5) prod.collapse)
next
  case None
  let ?w3 = "entered env message w"
  have f3: "fetches (log ?w3) = fetches (log w)" by (rule entered_fetches)
  have a: "\<forall>j<k. full_page (getSyncTask_r env (fetches (log ?w3) + j) tok)"
    using assms(6) by (simp only: f3)
  have b: "last_page (getSyncTask_r env (fetches (log ?w3) + k) tok)"
    using assms(7) by (simp only: f3)
  from sync_loop_pages[OF assms(5) entered_enabled[OF assms(5,4)] a b]
  obtain cs' w4 where l: "sync_loop (Suc k + m) env tok
       \<lparr>count = 0, successCount = 0, failedCount = 0\<rparr> ?w3 = Some (Inr cs', w4)"
    and f4: "fetches (log w4) = fetches (log w) + Suc k"
    unfolding f3 by blast
  from sync_returns[OF assms(1-3), of env "Suc k + m" message] l
  obtain r w' where s: "sync (Suc k + m) env message w = Some (r, w')" by auto
  from sync_passed[OF assms(1-3) s] None l obtain w5 evs where
    b5: "(r, w') = bookkeeping env w5" and l5: "log w5 = log w4 @ evs"
    and n5: "\<forall>e\<in>set evs. no_fetch e"
    by auto
  from b5 have "w' = snd (bookkeeping env w5)" by (metis snd_conv)
  then have "fetches (log w') = fetches (log w5)"
    by (simp add: log_bookkeeping) (simp add: fetches_def)
  with l5 f4 fetches_no_fetch[OF n5] have "fetches (log w') = fetches (log w) + Suc k"
    by simp
  with s None show ?thesis by simp
qed

text \<open>
  Two full pages and a short one: three fetches. One short page: one fetch.
\<close>

theorem sync_fetch_count_witness:
  "(\<exists>r w'. sync 3 pages_env True example_world = Some (r, w') \<and> fetches (log w') = 3)
   \<and> (\<exists>r w'. sync 1 short_env True example_world = Some (r, w') \<and> fetches (log w') = 1)"
proof
  show "\<exists>r w'. sync 3 pages_env True example_world = Some (r, w') \<and> fetches (log w') = 3"
    using sync_fetch_count[of example_world "''tok''" pages_env 2 0 True]
    by (simp add: example_world_def example_settings_def pages_env_def example_env_def
        keeps_enabled_def full_page_def last_page_def fetches_def less_Suc_eq numeral_2_eq_2
        numeral_3_eq_3)
  show "\<exists>r w'. sync 1 short_env True example_world = Some (r, w') \<and> fetches (log w') = 1"
    using sync_fetch_count[of example_world "''tok''" short_env 0 0 True]
    by (simp add: example_world_def example_settings_def short_env_def example_env_def
        keeps_enabled_def full_page_def last_page_def fetches_def)
qed








section \<open>The account validator\<close>

text \<open>
  C2, as stated, fails: when the integration check throws, \<open>checkAccount\<close> answers
  \<open>valid = false\<close>, the credential is still in the settings and nothing was persisted.
\<close>

theorem checkAccount_counterexample:
  "fst (checkAccount offline_env example_world) = Inr \<lparr>valid = False, failedTaskCount = 0\<rparr>
   \<and> token (settings (snd (checkAccount offline_env example_world))) = Some ''tok''
   \<and> log (snd (checkAccount offline_env example_world)) = [GetIntegration ''sess'' ''tok'']"
  by code_simp

lemma checkAccount_finish_invalid:
  assumes "checkAccount_finish env tv iv failed w1 = (Inr r, w')" and "\<not> valid r"
  shows "w' = await env
                (SaveData ((settings w1)\<lparr>token := None, user := None, sessionId := None\<rparr>))
                (w1\<lparr>settings := (settings w1)\<lparr>token := None, user := None,
                                                sessionId := None\<rparr>\<rparr>)
         \<and> saveData_r env (ticks w1) = None"
proof (cases "\<not> tv \<or> \<not> iv")
  case True
  with assms(1) show ?thesis
    by (cases "saveData_r env (ticks w1)")
      (simp_all add: checkAccount_finish_def saveSettings_def Let_def)
next
  case False
  with assms show ?thesis by (auto simp: checkAccount_finish_def Let_def)
qed

lemma checkAccount_uncalled:
  "integration_reply env w = None \<Longrightarrow>
   \<exists>tv. checkAccount env w = checkAccount_finish env tv False 0 w"
  by (cases "token (settings w)"; cases "sessionId (settings w)")
    (auto simp: checkAccount_def integration_reply_def Let_def split: if_splits)

lemma checkAccount_called:
  "integration_reply env w = Some x \<Longrightarrow>
   \<exists>sn t. checkAccount env w =
     (case x of
        Inl e \<Rightarrow> (Inr \<lparr>valid = False, failedTaskCount = 0\<rparr>, await env (GetIntegration sn t) w)
      | Inr resp \<Rightarrow>
          checkAccount_finish env True (integ_valid resp) (integ_failedTaskCount resp)
            (await env (GetIntegration sn t) w))"
  by (cases "token (settings w)"; cases "sessionId (settings w)")
    (auto simp: checkAccount_def integration_reply_def Let_def split: if_splits sum.splits)

text \<open>
  C2, amended. Whenever \<open>checkAccount\<close> returns a combined validity of false and the
  integration check did not throw (it answered \<open>valid = false\<close>, or was not called
  because the credential is malformed or expired or the session id is missing), it has
  cleared the credential, the user identity and the session id in the settings of the
  plugin and persisted the settings so cleared, as its last effect before it returns.
  When the integration check throws, \<open>checkAccount\<close> returns
  \<open>{valid: false, failedTaskCount: 0}\<close> at once: after the call of the integration check
  it assigns no setting and persists nothing.
\<close>

theorem checkAccount_invalid:
  assumes "fst (checkAccount env w) = Inr r" and "\<not> valid r"
  shows "case integration_reply env w of
           Some (Inl e) \<Rightarrow>
             r = \<lparr>valid = False, failedTaskCount = 0\<rparr>
             \<and> (\<exists>sn t. snd (checkAccount env w) = await env (GetIntegration sn t) w)
         | _ \<Rightarrow>
             (\<exists>w1 s. (w1 = w \<or> (\<exists>sn t. w1 = await env (GetIntegration sn t) w))
                \<and> s = (settings w1)\<lparr>token := None, user := None, sessionId := None\<rparr>
                \<and> snd (checkAccount env w) = await env (SaveData s) (w1\<lparr>settings := s\<rparr>)
                \<and> saveData_r env (ticks w1) = None)"
proof (cases "integration_reply env w")
  case None
  from checkAccount_uncalled[OF None] obtain tv where
    c: "checkAccount env w = checkAccount_finish env tv False 0 w" by blast
  with assms(1) have "checkAccount_finish env tv False 0 w = (Inr r, snd (checkAccount env w))"
    by (metis prod.collapse)
  from checkAccount_finish_invalid[OF this assms(2)]
  have "\<exists>w1 s. (w1 = w \<or> (\<exists>sn t. w1 = await env (GetIntegration sn t) w))
                \<and> s = (settings w1)\<lparr>token := None, user := None, sessionId := None\<rparr>
                \<and> snd (checkAccount env w) = await env (SaveData s) (w1\<lparr>settings := s\<rparr>)
                \<and> saveData_r env (ticks w1) = None"
    by (intro exI[of _ w]) blast
  with None show ?thesis by simp
next
  case (Some x)
  from checkAccount_called[OF Some] obtain sn t where
    c: "checkAccount env w =
     (case x of
        Inl e \<Rightarrow> (Inr \<lparr>valid = False, failedTaskCount = 0\<rparr>, await env (GetIntegration sn t) w)
      | Inr resp \<Rightarrow>
          checkAccount_finish env True (integ_valid resp) (integ_failedTaskCount resp)
            (await env (GetIntegration sn t) w))" by blast
  show ?thesis
  proof (cases x)
    case (Inl e)
    with c assms(1) Some show ?thesis by auto
  next
    case (Inr resp)
    with c assms(1)
    have "checkAccount_finish env True (integ_valid resp) (integ_failedTaskCount resp)
            (await env (GetIntegration sn t) w) = (Inr r, snd (checkAccount env w))"
      by (metis prod.collapse sum.case(2))
    from checkAccount_finish_invalid[OF this assms(2)]
    have "\<exists>w1 s. (w1 = w \<or> (\<exists>sn t. w1 = await env (GetIntegration sn t) w))
                \<and> s = (settings w1)\<lparr>token := None, user := None, sessionId := None\<rparr>
                \<and> snd (checkAccount env w) = await env (SaveData s) (w1\<lparr>settings := s\<rparr>)
                \<and> saveData_r env (ticks w1) = None"
      by (intro exI[of _ "await env (GetIntegration sn t) w"]) blast
    with Some Inr show ?thesis by simp
  qed
qed

text \<open>
  An integration that answers \<open>valid = false\<close> clears and persists; one that throws does
  neither.
\<close>

theorem checkAccount_invalid_witness:
  "fst (checkAccount unbound_env example_world) = Inr \<lparr>valid = False, failedTaskCount = 3\<rparr>
   \<and> settings (snd (checkAccount unbound_env example_world))
       = example_settings\<lparr>token := None, user := None, sessionId := None\<rparr>
   \<and> log (snd (checkAccount unbound_env example_world))
       = [GetIntegration ''sess'' ''tok'',
          SaveData (example_settings\<lparr>token := None, user := None, sessionId := None\<rparr>)]
   \<and> fst (checkAccount offline_env example_world) = Inr \<lparr>valid = False, failedTaskCount = 0\<rparr>
   \<and> (\<exists>sn t. snd (checkAccount offline_env example_world)
               = await offline_env (GetIntegration sn t) example_world)"
proof -
  have v: "fst (checkAccount unbound_env example_world)
             = Inr \<lparr>valid = False, failedTaskCount = 3\<rparr>"
    by (simp add: checkAccount_def checkAccount_finish_def checkToken_def run_defs
        unbound_env_def)
  have r: "integration_reply unbound_env example_world
             = Some (Inr \<lparr>integ_valid = False, integ_failedTaskCount = 3\<rparr>)"
    by (simp add: integration_reply_def checkToken_def run_defs unbound_env_def)
  have v2: "fst (checkAccount offline_env example_world)
              = Inr \<lparr>valid = False, failedTaskCount = 0\<rparr>"
    by (simp add: checkAccount_def checkAccount_finish_def checkToken_def run_defs
        offline_env_def)
  have r2: "integration_reply offline_env example_world
              = Some (Inl (Error ''Error'' ''network''))"
    by (simp add: integration_reply_def checkToken_def run_defs offline_env_def)
  have l: "log (snd (checkAccount unbound_env example_world))
       = [GetIntegration ''sess'' ''tok'',
          SaveData (example_settings\<lparr>token := None, user := None, sessionId := None\<rparr>)]"
    by (simp add: checkAccount_def checkAccount_finish_def checkToken_def run_defs
        unbound_env_def)
  have m: "settings (snd (checkAccount unbound_env example_world))
       = example_settings\<lparr>token := None, user := None, sessionId := None\<rparr>"
    by (simp add: checkAccount_def checkAccount_finish_def checkToken_def run_defs
        unbound_env_def)
  from checkAccount_invalid[OF v] r
  have "\<exists>w1 s. s = (settings w1)\<lparr>token := None, user := None, sessionId := None\<rparr>
           \<and> snd (checkAccount unbound_env example_world)
               = await unbound_env (SaveData s) (w1\<lparr>settings := s\<rparr>)"
    by auto
  with checkAccount_invalid[OF v2] r2 v v2 l m show ?thesis by simp
qed

section \<open>The login session poller\<close>

lemma ticks_exhaust:
  "\<lbrakk>attempts \<le> maxAttempts; \<forall>k < maxAttempts - attempts. pending (getLoginStatus_r env (polls + k) sid)\<rbrakk>
   \<Longrightarrow> getLoginStatus_ticks env sid attempts polls = (expired_response, polls + (maxAttempts - attempts))"
proof (induction env sid attempts polls rule: getLoginStatus_ticks.induct)
  case (1 env sid attempts polls)
  show ?case
  proof (cases "attempts \<ge> maxAttempts")
    case True
    with "1.prems" show ?thesis by (subst getLoginStatus_ticks.simps) simp
  next
    case False
    then have lt: "0 < maxAttempts - attempts" by simp
    with "1.prems"(2) have p0: "pending (getLoginStatus_r env polls sid)"
      by (metis add.right_neutral)
    have rest: "\<forall>k < maxAttempts - (attempts + 1). pending (getLoginStatus_r env (polls + 1 + k) sid)"
    proof (intro allI impI)
      fix k assume "k < maxAttempts - (attempts + 1)"
      then have "Suc k < maxAttempts - attempts" by simp
      with "1.prems"(2) have "pending (getLoginStatus_r env (polls + Suc k) sid)" by blast
      then show "pending (getLoginStatus_r env (polls + 1 + k) sid)" by simp
    qed
    have le: "attempts + 1 \<le> maxAttempts" using False by simp
    show ?thesis
    proof (cases "getLoginStatus_r env polls sid")
      case (Inl e)
      from "1.IH"(1)[OF False Inl le rest] False Inl show ?thesis
        by (subst getLoginStatus_ticks.simps) simp
    next
      case (Inr st)
      from p0 Inr have n1: "\<not> ls_invalidSessionId st" and n2: "\<not> (ls_status st \<and> truthy (ls_token st))"
        by (simp_all add: pending_def)
      from "1.IH"(2)[OF False Inr n1 n2 le rest] False Inr n1 n2 show ?thesis
        by (subst getLoginStatus_ticks.simps) auto
    qed
  qed
qed

text \<open>
  C3 against the code: with a remote whose every status poll fails, the poller resolves to
  the expired response (\<open>qrCodeExpired = true\<close>) on its 60th tick, and it has polled 59
  times, not 60: \<open>attempts\<close> starts at 1 and the tick that finds \<open>attempts >= 60\<close> does
  not poll.
\<close>

theorem getLoginStatus_polls:
  "getLoginStatus example_env ''sess'' = (expired_response, 59)"
proof -
  have "\<forall>k < maxAttempts - 1. pending (getLoginStatus_r example_env (0 + k) ''sess'')"
    by (simp add: example_env_def pending_def)
  from ticks_exhaust[OF _ this] show ?thesis
    by (simp add: getLoginStatus_def maxAttempts_def)
qed

end
